theory Spec2Isabelle
  imports Complex_Main "HOL-Library.AList" "HOL-Library.Log_Nat"
begin

section \<open>Python values, objects and the store\<close>

text \<open>
  The class \<^verbatim>\<open>Target\<close> of \<^verbatim>\<open>target.py\<close> is dynamically typed: its attributes hold
  whatever the caller or a JSON document puts there. The values of the model are the
  ones the documented argument types and \<^verbatim>\<open>json.loads\<close> produce: \<^verbatim>\<open>None\<close>, booleans,
  unbounded integers, floats, strings, and references to list and dict objects.
  Lists and dicts are mutable and shared by reference, so they live in a store
  (a list of objects; an address is an index, allocation appends).

  The float type is the parameter \<open>'f\<close>; its literal \<^verbatim>\<open>0.0\<close> is \<open>0\<close>. The float
  operations the code calls (\<^verbatim>\<open>math.radians\<close>, \<^verbatim>\<open>math.degrees\<close>, float addition,
  conversion of an int) belong to the Python runtime and are taken as parameters.
\<close>

type_synonym addr = nat

datatype 'f pyval =
  PNone | PBool bool | PInt int | PFloat 'f | PStr string | PRef addr

datatype 'f pyobj =
  PList "'f pyval list" | PDict "(string \<times> 'f pyval) list"

type_synonym 'f heap = "'f pyobj list"

text \<open>
  The exceptions of the model. \<open>KeyError\<close> carries its message. \<open>SystemError\<close>
  is the result of following an address that is not allocated, which no Python program
  can do.
\<close>

datatype pyerror =
  KeyError string | TypeError | AttributeError | OverflowError | ValueError | SystemError

definition bindE :: "'e + 'a \<Rightarrow> ('a \<Rightarrow> 'e + 'b) \<Rightarrow> 'e + 'b" where
  "bindE m f = (case m of Inl e \<Rightarrow> Inl e | Inr x \<Rightarrow> f x)"

record 'f mathlib =
  f_radians :: "'f \<Rightarrow> 'f"
  f_degrees :: "'f \<Rightarrow> 'f"
  f_add :: "'f \<Rightarrow> 'f \<Rightarrow> 'f"
  f_of_int :: "int \<Rightarrow> 'f option"

text \<open>Allocation of a new object: \<^verbatim>\<open>[...]\<close>, \<^verbatim>\<open>list(...)\<close>, \<^verbatim>\<open>{...}\<close>.\<close>

definition new_obj :: "'f pyobj \<Rightarrow> 'f heap \<Rightarrow> 'f pyval \<times> 'f heap" where
  "new_obj ob h = (PRef (length h), h @ [ob])"

text \<open>
  Iterating a value, as \<^verbatim>\<open>list(x)\<close> and \<^verbatim>\<open>sum(x)\<close> do: a list yields its elements,
  a dict its keys, a string its characters; anything else is not iterable.
\<close>

definition py_iter :: "'f heap \<Rightarrow> 'f pyval \<Rightarrow> pyerror + 'f pyval list" where
  "py_iter h v =
     (case v of
        PRef a \<Rightarrow>
          (if a < length h then
             (case h ! a of
                PList xs \<Rightarrow> Inr xs
              | PDict kvs \<Rightarrow> Inr (map (\<lambda>kv. PStr (fst kv)) kvs))
           else Inl SystemError)
      | PStr s \<Rightarrow> Inr (map (\<lambda>c. PStr [c]) s)
      | _ \<Rightarrow> Inl TypeError)"

text \<open>The builtin \<^verbatim>\<open>list(x)\<close>: a new list object holding the items of \<open>x\<close>.\<close>

definition py_list :: "'f heap \<Rightarrow> 'f pyval \<Rightarrow> pyerror + ('f pyval \<times> 'f heap)" where
  "py_list h v = bindE (py_iter h v) (\<lambda>xs. Inr (new_obj (PList xs) h))"

text \<open>
  The argument conversion of \<^verbatim>\<open>math.radians\<close> and \<^verbatim>\<open>math.degrees\<close>: a float is
  taken as it is, an int (a bool is an int) is converted and may be too large, anything
  else is a \<^verbatim>\<open>TypeError\<close>.
\<close>

definition as_int :: "'f pyval \<Rightarrow> int option" where
  "as_int v = (case v of PInt i \<Rightarrow> Some i | PBool b \<Rightarrow> Some (if b then 1 else 0) | _ \<Rightarrow> None)"

definition int_to_float :: "'f mathlib \<Rightarrow> int \<Rightarrow> pyerror + 'f" where
  "int_to_float M i = (case f_of_int M i of None \<Rightarrow> Inl OverflowError | Some x \<Rightarrow> Inr x)"

definition as_double :: "'f mathlib \<Rightarrow> 'f pyval \<Rightarrow> pyerror + 'f" where
  "as_double M v =
     (case v of
        PFloat x \<Rightarrow> Inr x
      | _ \<Rightarrow> (case as_int v of Some i \<Rightarrow> int_to_float M i | None \<Rightarrow> Inl TypeError))"

definition math_radians :: "'f mathlib \<Rightarrow> 'f pyval \<Rightarrow> pyerror + 'f" where
  "math_radians M v = bindE (as_double M v) (\<lambda>x. Inr (f_radians M x))"

definition math_degrees :: "'f mathlib \<Rightarrow> 'f pyval \<Rightarrow> pyerror + 'f" where
  "math_degrees M v = bindE (as_double M v) (\<lambda>x. Inr (f_degrees M x))"

text \<open>
  The builtin \<^verbatim>\<open>sum(x)\<close>: additions from the left, starting from the int \<^verbatim>\<open>0\<close>. The
  accumulator is always a number, so \<open>num_add\<close> is \<^verbatim>\<open>+\<close> with a number on the left:
  int plus int is exact, a float operand makes the sum a float, and an item that is
  not a number is a \<^verbatim>\<open>TypeError\<close>. (From version 3.12 on, CPython compensates the
  rounding errors of a sum of floats; the result is then a float that may differ from
  the one of the plain additions in its last digits.)
\<close>

definition num_add :: "'f mathlib \<Rightarrow> 'f pyval \<Rightarrow> 'f pyval \<Rightarrow> pyerror + 'f pyval" where
  "num_add M x y =
     (case (as_int x, as_int y) of
        (Some i, Some j) \<Rightarrow> Inr (PInt (i + j))
      | (Some i, None) \<Rightarrow>
          (case y of
             PFloat b \<Rightarrow> bindE (int_to_float M i) (\<lambda>a. Inr (PFloat (f_add M a b)))
           | _ \<Rightarrow> Inl TypeError)
      | (None, Some j) \<Rightarrow>
          (case x of
             PFloat a \<Rightarrow> bindE (int_to_float M j) (\<lambda>b. Inr (PFloat (f_add M a b)))
           | _ \<Rightarrow> Inl TypeError)
      | (None, None) \<Rightarrow>
          (case (x, y) of
             (PFloat a, PFloat b) \<Rightarrow> Inr (PFloat (f_add M a b))
           | _ \<Rightarrow> Inl TypeError))"

fun sum_loop :: "'f mathlib \<Rightarrow> 'f pyval \<Rightarrow> 'f pyval list \<Rightarrow> pyerror + 'f pyval" where
  "sum_loop M acc [] = Inr acc"
| "sum_loop M acc (x # xs) = bindE (num_add M acc x) (\<lambda>acc'. sum_loop M acc' xs)"

definition py_sum :: "'f mathlib \<Rightarrow> 'f heap \<Rightarrow> 'f pyval \<Rightarrow> pyerror + 'f pyval" where
  "py_sum M h v = bindE (py_iter h v) (sum_loop M (PInt 0))"

section \<open>The class Target\<close>

text \<open>
  An instance is its attribute dictionary (\<^verbatim>\<open>vars(self)\<close>): an association list in
  insertion order. Storing an attribute that exists keeps its place, a new one is
  appended, as in a Python dict; this is \<^const>\<open>AList.update\<close>.
\<close>

type_synonym 'f target = "(string \<times> 'f pyval) list"

definition getattr_inst :: "'f target \<Rightarrow> string \<Rightarrow> pyerror + 'f pyval" where
  "getattr_inst t k = (case map_of t k of None \<Rightarrow> Inl AttributeError | Some v \<Rightarrow> Inr v)"

text \<open>
  The arguments of \<^verbatim>\<open>__init__\<close>; \<open>None\<close> is an omitted argument, which takes the
  default of the signature. The default of \<^verbatim>\<open>exp_times\<close> is an empty list.
\<close>

record 'f init_args =
  arg_targetid :: "'f pyval option"
  arg_fieldid :: "'f pyval option"
  arg_band_filter :: "'f pyval option"
  arg_ra_rad :: "'f pyval option"
  arg_dec_rad :: "'f pyval option"
  arg_ang_rad :: "'f pyval option"
  arg_num_exp :: "'f pyval option"
  arg_exp_times :: "'f pyval option"

definition no_args :: "'f init_args" where
  "no_args = \<lparr>arg_targetid = None, arg_fieldid = None, arg_band_filter = None,
     arg_ra_rad = None, arg_dec_rad = None, arg_ang_rad = None, arg_num_exp = None,
     arg_exp_times = None\<rparr>"

definition arg_or :: "'a \<Rightarrow> 'a option \<Rightarrow> 'a" where
  "arg_or d a = (case a of None \<Rightarrow> d | Some v \<Rightarrow> v)"

text \<open>
  The attribute dictionary that \<^verbatim>\<open>__init__\<close> fills, in the order of its assignments;
  \<open>l\<close> is the new list \<^verbatim>\<open>list(exp_times)\<close>.
\<close>

definition init_fields :: "('f::zero) init_args \<Rightarrow> 'f pyval \<Rightarrow> 'f target" where
  "init_fields a l =
     [(''targetid'', arg_or (PInt 0) (arg_targetid a)),
      (''fieldid'', arg_or (PInt 0) (arg_fieldid a)),
      (''filter'', arg_or (PStr '''') (arg_band_filter a)),
      (''ra_rad'', arg_or (PFloat 0) (arg_ra_rad a)),
      (''dec_rad'', arg_or (PFloat 0) (arg_dec_rad a)),
      (''ang_rad'', arg_or (PFloat 0) (arg_ang_rad a)),
      (''num_exp'', arg_or (PInt 0) (arg_num_exp a)),
      (''exp_times'', l),
      (''_exp_time'', PNone),
      (''time'', PFloat 0),
      (''airmass'', PFloat 0),
      (''sky_brightness'', PFloat 0),
      (''cloud'', PFloat 0),
      (''seeing'', PFloat 0),
      (''alt_rad'', PFloat 0),
      (''az_rad'', PFloat 0),
      (''rot_rad'', PFloat 0),
      (''telalt_rad'', PFloat 0),
      (''telaz_rad'', PFloat 0),
      (''telrot_rad'', PFloat 0),
      (''slewtime'', PFloat 0),
      (''note'', PStr '''')]"

definition Target_init :: "('f::zero) init_args \<Rightarrow> 'f heap \<Rightarrow> pyerror + ('f target \<times> 'f heap)" where
  "Target_init a h =
     bindE (case arg_exp_times a of None \<Rightarrow> Inr [] | Some v \<Rightarrow> py_iter h v) (\<lambda>xs.
       case new_obj (PList xs) h of (l, h') \<Rightarrow> Inr (init_fields a l, h'))"

subsection \<open>The degree views\<close>

definition alt :: "'f mathlib \<Rightarrow> 'f target \<Rightarrow> pyerror + 'f" where
  "alt M t = bindE (getattr_inst t ''alt_rad'') (math_degrees M)"

definition alt_setter :: "'f mathlib \<Rightarrow> 'f pyval \<Rightarrow> 'f target \<Rightarrow> pyerror + 'f target" where
  "alt_setter M v t =
     bindE (math_radians M v) (\<lambda>r. Inr (AList.update ''alt_rad'' (PFloat r) t))"

definition ang :: "'f mathlib \<Rightarrow> 'f target \<Rightarrow> pyerror + 'f" where
  "ang M t = bindE (getattr_inst t ''ang_rad'') (math_degrees M)"

definition ang_setter :: "'f mathlib \<Rightarrow> 'f pyval \<Rightarrow> 'f target \<Rightarrow> pyerror + 'f target" where
  "ang_setter M v t =
     bindE (math_radians M v) (\<lambda>r. Inr (AList.update ''ang_rad'' (PFloat r) t))"

definition az :: "'f mathlib \<Rightarrow> 'f target \<Rightarrow> pyerror + 'f" where
  "az M t = bindE (getattr_inst t ''az_rad'') (math_degrees M)"

definition az_setter :: "'f mathlib \<Rightarrow> 'f pyval \<Rightarrow> 'f target \<Rightarrow> pyerror + 'f target" where
  "az_setter M v t =
     bindE (math_radians M v) (\<lambda>r. Inr (AList.update ''az_rad'' (PFloat r) t))"

definition dec :: "'f mathlib \<Rightarrow> 'f target \<Rightarrow> pyerror + 'f" where
  "dec M t = bindE (getattr_inst t ''dec_rad'') (math_degrees M)"

definition dec_setter :: "'f mathlib \<Rightarrow> 'f pyval \<Rightarrow> 'f target \<Rightarrow> pyerror + 'f target" where
  "dec_setter M v t =
     bindE (math_radians M v) (\<lambda>r. Inr (AList.update ''dec_rad'' (PFloat r) t))"

definition ra :: "'f mathlib \<Rightarrow> 'f target \<Rightarrow> pyerror + 'f" where
  "ra M t = bindE (getattr_inst t ''ra_rad'') (math_degrees M)"

definition ra_setter :: "'f mathlib \<Rightarrow> 'f pyval \<Rightarrow> 'f target \<Rightarrow> pyerror + 'f target" where
  "ra_setter M v t =
     bindE (math_radians M v) (\<lambda>r. Inr (AList.update ''ra_rad'' (PFloat r) t))"

definition rot :: "'f mathlib \<Rightarrow> 'f target \<Rightarrow> pyerror + 'f" where
  "rot M t = bindE (getattr_inst t ''rot_rad'') (math_degrees M)"

definition rot_setter :: "'f mathlib \<Rightarrow> 'f pyval \<Rightarrow> 'f target \<Rightarrow> pyerror + 'f target" where
  "rot_setter M v t =
     bindE (math_radians M v) (\<lambda>r. Inr (AList.update ''rot_rad'' (PFloat r) t))"

definition telalt :: "'f mathlib \<Rightarrow> 'f target \<Rightarrow> pyerror + 'f" where
  "telalt M t = bindE (getattr_inst t ''telalt_rad'') (math_degrees M)"

definition telalt_setter :: "'f mathlib \<Rightarrow> 'f pyval \<Rightarrow> 'f target \<Rightarrow> pyerror + 'f target" where
  "telalt_setter M v t =
     bindE (math_radians M v) (\<lambda>r. Inr (AList.update ''telalt_rad'' (PFloat r) t))"

definition telaz :: "'f mathlib \<Rightarrow> 'f target \<Rightarrow> pyerror + 'f" where
  "telaz M t = bindE (getattr_inst t ''telaz_rad'') (math_degrees M)"

definition telaz_setter :: "'f mathlib \<Rightarrow> 'f pyval \<Rightarrow> 'f target \<Rightarrow> pyerror + 'f target" where
  "telaz_setter M v t =
     bindE (math_radians M v) (\<lambda>r. Inr (AList.update ''telaz_rad'' (PFloat r) t))"

definition telrot :: "'f mathlib \<Rightarrow> 'f target \<Rightarrow> pyerror + 'f" where
  "telrot M t = bindE (getattr_inst t ''telrot_rad'') (math_degrees M)"

definition telrot_setter :: "'f mathlib \<Rightarrow> 'f pyval \<Rightarrow> 'f target \<Rightarrow> pyerror + 'f target" where
  "telrot_setter M v t =
     bindE (math_radians M v) (\<lambda>r. Inr (AList.update ''telrot_rad'' (PFloat r) t))"

text \<open>
  The nine degree properties of the class, in the order of the source: the name, the
  getter, the setter.
\<close>

definition degree_props ::
  "'f mathlib \<Rightarrow> (string \<times> ('f target \<Rightarrow> pyerror + 'f) \<times> ('f pyval \<Rightarrow> 'f target \<Rightarrow> pyerror + 'f target)) list" where
  "degree_props M =
     [(''alt'', alt M, alt_setter M),
      (''ang'', ang M, ang_setter M),
      (''az'', az M, az_setter M),
      (''dec'', dec M, dec_setter M),
      (''ra'', ra M, ra_setter M),
      (''rot'', rot M, rot_setter M),
      (''telalt'', telalt M, telalt_setter M),
      (''telaz'', telaz M, telaz_setter M),
      (''telrot'', telrot M, telrot_setter M)]"

subsection \<open>The total exposure time\<close>

definition exp_time :: "'f mathlib \<Rightarrow> 'f heap \<Rightarrow> 'f target \<Rightarrow> pyerror + 'f pyval" where
  "exp_time M h t =
     bindE (getattr_inst t ''_exp_time'') (\<lambda>override.
       if override = PNone then bindE (getattr_inst t ''exp_times'') (py_sum M h)
       else Inr override)"

definition exp_time_setter :: "'f pyval \<Rightarrow> 'f target \<Rightarrow> 'f target" where
  "exp_time_setter v t = AList.update ''_exp_time'' v t"

subsection \<open>Copies\<close>

text \<open>
  One statement \<^verbatim>\<open>dst.k = src.k\<close>, and a run of them. Reading an attribute that the
  source lacks raises \<^verbatim>\<open>AttributeError\<close>.
\<close>

definition copy_attr :: "string \<Rightarrow> 'f target \<Rightarrow> 'f target \<Rightarrow> pyerror + 'f target" where
  "copy_attr k src dst = bindE (getattr_inst src k) (\<lambda>v. Inr (AList.update k v dst))"

fun copy_attrs :: "string list \<Rightarrow> 'f target \<Rightarrow> 'f target \<Rightarrow> pyerror + 'f target" where
  "copy_attrs [] src dst = Inr dst"
| "copy_attrs (k # ks) src dst = bindE (copy_attr k src dst) (copy_attrs ks src)"

text \<open>
  When source and destination are one object, every statement reads the object that
  the statements before it have written.
\<close>

fun copy_attrs_same :: "string list \<Rightarrow> 'f target \<Rightarrow> pyerror + 'f target" where
  "copy_attrs_same [] self = Inr self"
| "copy_attrs_same (k # ks) self = bindE (copy_attr k self self) (copy_attrs_same ks)"

definition driver_state :: "string list" where
  "driver_state =
     [''alt_rad'', ''az_rad'', ''rot_rad'', ''telalt_rad'', ''telaz_rad'', ''telrot_rad'',
      ''ang_rad'']"

definition copy_driver_state :: "'f target \<Rightarrow> 'f target \<Rightarrow> pyerror + 'f target" where
  "copy_driver_state self target = copy_attrs driver_state target self"

definition copy_driver_state_same :: "'f target \<Rightarrow> pyerror + 'f target" where
  "copy_driver_state_same self = copy_attrs_same driver_state self"

text \<open>
  The attributes that \<^verbatim>\<open>get_copy\<close> assigns before and after \<^verbatim>\<open>exp_times\<close>, in the
  order of its statements.
\<close>

definition copied_before :: "string list" where
  "copied_before =
     [''targetid'', ''fieldid'', ''filter'', ''ra_rad'', ''dec_rad'', ''ang_rad'', ''num_exp'']"

definition copied_after :: "string list" where
  "copied_after =
     [''time'', ''airmass'', ''sky_brightness'', ''cloud'', ''seeing'', ''alt_rad'', ''az_rad'',
      ''rot_rad'', ''telalt_rad'', ''telaz_rad'', ''telrot_rad'', ''slewtime'', ''note'']"

definition get_copy :: "('f::zero) target \<Rightarrow> 'f heap \<Rightarrow> pyerror + ('f target \<times> 'f heap)" where
  "get_copy self h =
     bindE (Target_init no_args h) (\<lambda>(newtarget, h0).
     bindE (copy_attrs copied_before self newtarget) (\<lambda>n1.
     bindE (getattr_inst self ''exp_times'') (\<lambda>v.
     bindE (py_list h0 v) (\<lambda>(l, h1).
     bindE (copy_attrs copied_after self (AList.update ''exp_times'' l n1)) (\<lambda>n2.
     Inr (n2, h1))))))"

subsection \<open>Construction from a topic\<close>

record 'f topic =
  topic_targetId :: "'f pyval"
  topic_filter :: "'f pyval"
  topic_ra :: "'f pyval"
  topic_decl :: "'f pyval"
  topic_skyAngle :: "'f pyval"
  topic_numExposures :: "'f pyval"
  topic_exposureTimes :: "'f pyval"

definition from_topic ::
  "('f::zero) mathlib \<Rightarrow> 'f topic \<Rightarrow> 'f heap \<Rightarrow> pyerror + ('f target \<times> 'f heap)" where
  "from_topic M tp h =
     bindE (math_radians M (topic_ra tp)) (\<lambda>r.
     bindE (math_radians M (topic_decl tp)) (\<lambda>d.
     bindE (math_radians M (topic_skyAngle tp)) (\<lambda>s.
       Target_init \<lparr>arg_targetid = Some (topic_targetId tp), arg_fieldid = Some (PInt (- 1)),
         arg_band_filter = Some (topic_filter tp), arg_ra_rad = Some (PFloat r),
         arg_dec_rad = Some (PFloat d), arg_ang_rad = Some (PFloat s),
         arg_num_exp = Some (topic_numExposures tp),
         arg_exp_times = Some (topic_exposureTimes tp)\<rparr> h)))"

section \<open>JSON\<close>

text \<open>
  A JSON document is modelled by its syntax tree: the text that \<^verbatim>\<open>json.dumps\<close> writes
  and \<^verbatim>\<open>json.loads\<close> reads is the tree, and a number written with a fraction or an
  exponent is the float it denotes. An object is its list of members in the order of
  the text, where a name may occur more than once.
\<close>

datatype 'f json =
  JNull | JBool bool | JInt int | JFloat 'f | JStr string
  | JArr "'f json list" | JObj "(string \<times> 'f json) list"

text \<open>
  \<^verbatim>\<open>dict(pairs)\<close>: the pairs are stored from the left; a later pair of the same key
  replaces the value and keeps the place of the first.
\<close>

fun dict_of :: "(string \<times> 'v) list \<Rightarrow> (string \<times> 'v) list \<Rightarrow> (string \<times> 'v) list" where
  "dict_of d [] = d"
| "dict_of d ((k, v) # kvs) = dict_of (AList.update k v d) kvs"

text \<open>
  \<^verbatim>\<open>json.loads\<close> builds the value of a document: a new list object for an array and a
  new dict object for an object, the children before the parent.
\<close>

fun json_loads :: "'f json \<Rightarrow> 'f heap \<Rightarrow> 'f pyval \<times> 'f heap"
  and json_loads_list :: "'f json list \<Rightarrow> 'f heap \<Rightarrow> 'f pyval list \<times> 'f heap"
  and json_loads_members ::
    "(string \<times> 'f json) list \<Rightarrow> 'f heap \<Rightarrow> (string \<times> 'f pyval) list \<times> 'f heap"
where
  "json_loads JNull h = (PNone, h)"
| "json_loads (JBool b) h = (PBool b, h)"
| "json_loads (JInt i) h = (PInt i, h)"
| "json_loads (JFloat x) h = (PFloat x, h)"
| "json_loads (JStr s) h = (PStr s, h)"
| "json_loads (JArr js) h =
     (case json_loads_list js h of (vs, h') \<Rightarrow> new_obj (PList vs) h')"
| "json_loads (JObj ms) h =
     (case json_loads_members ms h of (kvs, h') \<Rightarrow> new_obj (PDict (dict_of [] kvs)) h')"
| "json_loads_list [] h = ([], h)"
| "json_loads_list (j # js) h =
     (case json_loads j h of (v, h1) \<Rightarrow>
        (case json_loads_list js h1 of (vs, h2) \<Rightarrow> (v # vs, h2)))"
| "json_loads_members [] h = ([], h)"
| "json_loads_members ((k, j) # ms) h =
     (case json_loads j h of (v, h1) \<Rightarrow>
        (case json_loads_members ms h1 of (kvs, h2) \<Rightarrow> ((k, v) # kvs, h2)))"

text \<open>
  \<^verbatim>\<open>json.dumps\<close> walks a value. The set \<open>m\<close> holds the containers that are being
  written (the encoder's \<^verbatim>\<open>markers\<close>): meeting one of them again is the
  \<^verbatim>\<open>ValueError\<close> "Circular reference detected".
\<close>

function dumps_val :: "'f heap \<Rightarrow> addr set \<Rightarrow> 'f pyval \<Rightarrow> pyerror + 'f json"
  and dumps_list :: "'f heap \<Rightarrow> addr set \<Rightarrow> 'f pyval list \<Rightarrow> pyerror + 'f json list"
  and dumps_items ::
    "'f heap \<Rightarrow> addr set \<Rightarrow> (string \<times> 'f pyval) list \<Rightarrow> pyerror + (string \<times> 'f json) list"
where
  "dumps_val h m PNone = Inr JNull"
| "dumps_val h m (PBool b) = Inr (JBool b)"
| "dumps_val h m (PInt i) = Inr (JInt i)"
| "dumps_val h m (PFloat x) = Inr (JFloat x)"
| "dumps_val h m (PStr s) = Inr (JStr s)"
| "dumps_val h m (PRef a) =
     (if a \<in> m then Inl ValueError
      else if length h \<le> a then Inl SystemError
      else (case h ! a of
              PList vs \<Rightarrow>
                (case dumps_list h (insert a m) vs of
                   Inl e \<Rightarrow> Inl e | Inr js \<Rightarrow> Inr (JArr js))
            | PDict kvs \<Rightarrow>
                (case dumps_items h (insert a m) kvs of
                   Inl e \<Rightarrow> Inl e | Inr ms \<Rightarrow> Inr (JObj ms))))"
| "dumps_list h m [] = Inr []"
| "dumps_list h m (v # vs) =
     (case dumps_val h m v of
        Inl e \<Rightarrow> Inl e
      | Inr j \<Rightarrow> (case dumps_list h m vs of Inl e \<Rightarrow> Inl e | Inr js \<Rightarrow> Inr (j # js)))"
| "dumps_items h m [] = Inr []"
| "dumps_items h m ((k, v) # kvs) =
     (case dumps_val h m v of
        Inl e \<Rightarrow> Inl e
      | Inr j \<Rightarrow> (case dumps_items h m kvs of Inl e \<Rightarrow> Inl e | Inr ms \<Rightarrow> Inr ((k, j) # ms)))"
  by pat_completeness auto
termination
proof (relation "inv_image (less_than <*lex*> less_than)
    (\<lambda>x. case x of
        Inl (h, m, v) \<Rightarrow> (length h - card (m \<inter> {..<length h}), 0)
      | Inr (Inl (h, m, vs)) \<Rightarrow> (length h - card (m \<inter> {..<length h}), Suc (length vs))
      | Inr (Inr (h, m, kvs)) \<Rightarrow> (length h - card (m \<inter> {..<length h}), Suc (length kvs)))",
    goal_cases)
  case 1
  show ?case by (intro wf_inv_image wf_lex_prod wf_less_than)
next
  case (2 h m a vs)
  have "card (m \<inter> {..<length h}) < card (insert a m \<inter> {..<length h})"
    using 2 by (intro psubset_card_mono) auto
  moreover have "card (insert a m \<inter> {..<length h}) \<le> length h"
    using card_mono[of "{..<length h}" "insert a m \<inter> {..<length h}"] by simp
  ultimately show ?case by simp
next
  case (3 h m a kvs)
  have "card (m \<inter> {..<length h}) < card (insert a m \<inter> {..<length h})"
    using 3 by (intro psubset_card_mono) auto
  moreover have "card (insert a m \<inter> {..<length h}) \<le> length h"
    using card_mono[of "{..<length h}" "insert a m \<inter> {..<length h}"] by simp
  ultimately show ?case by simp
qed simp_all

subsection \<open>Serialization of a Target\<close>

definition to_json :: "'f heap \<Rightarrow> 'f target \<Rightarrow> pyerror + 'f json" where
  "to_json h self = bindE (dumps_items h {} self) (\<lambda>ms. Inr (JObj ms))"

text \<open>
  \<^verbatim>\<open>setattr(self, k, v)\<close>. A data descriptor of the class takes the assignment: the
  nine degree properties and \<^verbatim>\<open>exp_time\<close> call their setters, and the three
  descriptors every Python class has answer as the interpreter does
  (\<^verbatim>\<open>__class__\<close> wants a class and \<^verbatim>\<open>__dict__\<close> a dict, \<^verbatim>\<open>__weakref__\<close> is read-only).
  Any other name is stored in the instance dictionary. Assigning \<^verbatim>\<open>__dict__\<close> makes
  the dict the instance dictionary; the model takes its items, which is the same as
  long as nothing else refers to that dict (as for a dict that \<^verbatim>\<open>json.loads\<close> has
  just built for a member).
\<close>

definition py_setattr ::
  "'f mathlib \<Rightarrow> 'f heap \<Rightarrow> string \<Rightarrow> 'f pyval \<Rightarrow> 'f target \<Rightarrow> pyerror + 'f target" where
  "py_setattr M h k v t =
     (case map_of (degree_props M) k of
        Some (getter, setter) \<Rightarrow> setter v t
      | None \<Rightarrow>
          if k = ''exp_time'' then Inr (exp_time_setter v t)
          else if k = ''__class__'' then Inl TypeError
          else if k = ''__weakref__'' then Inl AttributeError
          else if k = ''__dict__'' then
            (case v of
               PRef a \<Rightarrow>
                 (if a < length h then
                    (case h ! a of PDict kvs \<Rightarrow> Inr kvs | PList xs \<Rightarrow> Inl TypeError)
                  else Inl SystemError)
             | _ \<Rightarrow> Inl TypeError)
          else Inr (AList.update k v t))"

definition mandatory_fields :: "string list" where
  "mandatory_fields =
     [''targetid'', ''fieldid'', ''filter'', ''ra_rad'', ''dec_rad'', ''ang_rad'', ''num_exp'',
      ''exp_times'']"

definition missing_msg :: string where
  "missing_msg =
     ''json blob passed to Target()'' @ [CHR 0x27] @
     ''s json constructor is missing required attribute: ''"

text \<open>The first loop of \<^verbatim>\<open>from_json\<close>: the first mandatory field that is no key raises.\<close>

fun check_mandatory :: "string list \<Rightarrow> string list \<Rightarrow> pyerror option" where
  "check_mandatory [] keys = None"
| "check_mandatory (f # fs) keys =
     (if f \<notin> set keys then Some (KeyError (missing_msg @ f)) else check_mandatory fs keys)"

text \<open>
  The second loop: \<^verbatim>\<open>setattr\<close> for every key, in the order of the dict. An exception
  leaves the instance as the assignments before it have made it.
\<close>

fun setattr_loop ::
  "'f mathlib \<Rightarrow> 'f heap \<Rightarrow> (string \<times> 'f pyval) list \<Rightarrow> 'f target \<Rightarrow> pyerror option \<times> 'f target" where
  "setattr_loop M h [] t = (None, t)"
| "setattr_loop M h ((k, v) # kvs) t =
     (case py_setattr M h k v t of
        Inl e \<Rightarrow> (Some e, t)
      | Inr t' \<Rightarrow> setattr_loop M h kvs t')"

text \<open>\<^verbatim>\<open>jsondict.keys()\<close>: only a dict has the method.\<close>

definition dict_items :: "'f heap \<Rightarrow> 'f pyval \<Rightarrow> pyerror + (string \<times> 'f pyval) list" where
  "dict_items h v =
     (case v of
        PRef a \<Rightarrow>
          (if a < length h then
             (case h ! a of PDict kvs \<Rightarrow> Inr kvs | PList xs \<Rightarrow> Inl AttributeError)
           else Inl SystemError)
      | _ \<Rightarrow> Inl AttributeError)"

text \<open>
  \<^verbatim>\<open>from_json\<close> changes the instance in place. The result is the exception raised, if
  any, with the instance and the store as the call leaves them.
\<close>

definition from_json ::
  "'f mathlib \<Rightarrow> 'f json \<Rightarrow> 'f target \<Rightarrow> 'f heap \<Rightarrow> pyerror option \<times> 'f target \<times> 'f heap" where
  "from_json M jsonstr self h =
     (case json_loads jsonstr h of (jsondict, h1) \<Rightarrow>
        (case dict_items h1 jsondict of
           Inl e \<Rightarrow> (Some e, self, h1)
         | Inr kvs \<Rightarrow>
             (case check_mandatory mandatory_fields (map fst kvs) of
                Some e \<Rightarrow> (Some e, self, h1)
              | None \<Rightarrow>
                  (case setattr_loop M h1 kvs self of (r, self') \<Rightarrow> (r, self', h1)))))"

section \<open>The floating-point arithmetic of the runtime\<close>

text \<open>
  A Python float is a binary64 number of IEEE 754. A finite float has a sign, a
  significand \<open>m\<close> below \<^verbatim>\<open>2**53\<close> and an exponent \<open>e\<close> from \<^verbatim>\<open>-1074\<close> to
  \<^verbatim>\<open>971\<close>, and denotes \<open>m\<close> times \<^verbatim>\<open>2**e\<close>; the significand is at least
  \<^verbatim>\<open>2**52\<close> unless the exponent is the least one, so that every number has one
  representation. There are two zeros, two infinities and the NaN.
\<close>

datatype double = Finite bool nat int | Infinity bool | NaN

instantiation double :: zero
begin

definition zero_double_def: "0 = Finite False 0 (- 1074)"

instance ..

end

definition is_double :: "double \<Rightarrow> bool" where
  "is_double x =
     (case x of
        Finite s m e \<Rightarrow> m < 2 ^ 53 \<and> - 1074 \<le> e \<and> e \<le> 971 \<and> (m < 2 ^ 52 \<longrightarrow> e = - 1074)
      | _ \<Rightarrow> True)"

text \<open>The real number that a finite float denotes.\<close>

definition valof :: "double \<Rightarrow> real" where
  "valof x = (case x of Finite s m e \<Rightarrow> (if s then - 1 else 1) * real m * 2 powi e | _ \<Rightarrow> 0)"

text \<open>
  Every operation returns the float nearest to its exact result, the one with the even
  significand when two are as near. \<open>rne m d\<close> is \<open>m\<close> divided by \<^verbatim>\<open>2**d\<close> and
  rounded so; \<open>round_double s m e\<close> is the float for the exact result \<open>m\<close> times
  \<^verbatim>\<open>2**e\<close> with the sign \<open>s\<close>: the significand keeps the leading 53 bits (fewer
  below \<^verbatim>\<open>2**-1022\<close>), and a result beyond the largest float is an infinity.
\<close>

definition rne :: "nat \<Rightarrow> nat \<Rightarrow> nat" where
  "rne m d =
     (let q = m div 2 ^ d; r = m mod 2 ^ d
      in if 2 ^ d < 2 * r \<or> (2 * r = 2 ^ d \<and> odd q) then q + 1 else q)"

definition round_double :: "bool \<Rightarrow> nat \<Rightarrow> int \<Rightarrow> double" where
  "round_double s m e =
     (if m = 0 then Finite s 0 (- 1074)
      else
        (let e' = max (e + int (floorlog 2 m) - 53) (- 1074);
             m' = (if e' \<le> e then m * 2 ^ nat (e - e') else rne m (nat (e' - e)))
         in if m' = 2 ^ 53 then (if 971 \<le> e' then Infinity s else Finite s (2 ^ 52) (e' + 1))
            else if 971 < e' then Infinity s
            else Finite s m' e'))"

text \<open>The product and the sum of two floats.\<close>

fun fmul :: "double \<Rightarrow> double \<Rightarrow> double" where
  "fmul (Finite s m e) (Finite t n f) = round_double (s \<noteq> t) (m * n) (e + f)"
| "fmul (Finite s m e) (Infinity t) = (if m = 0 then NaN else Infinity (s \<noteq> t))"
| "fmul (Infinity s) (Finite t n f) = (if n = 0 then NaN else Infinity (s \<noteq> t))"
| "fmul (Infinity s) (Infinity t) = Infinity (s \<noteq> t)"
| "fmul NaN y = NaN"
| "fmul x NaN = NaN"

definition signed :: "bool \<Rightarrow> nat \<Rightarrow> int" where
  "signed s m = (if s then - int m else int m)"

fun fadd :: "double \<Rightarrow> double \<Rightarrow> double" where
  "fadd (Finite s m e) (Finite t n f) =
     (let g = min e f;
          c = signed s m * 2 ^ nat (e - g) + signed t n * 2 ^ nat (f - g)
      in if c = 0 then Finite (s \<and> t) 0 (- 1074) else round_double (c < 0) (nat \<bar>c\<bar>) g)"
| "fadd (Finite s m e) (Infinity t) = Infinity t"
| "fadd (Infinity s) (Finite t n f) = Infinity s"
| "fadd (Infinity s) (Infinity t) = (if s = t then Infinity s else NaN)"
| "fadd NaN y = NaN"
| "fadd x NaN = NaN"

text \<open>
  The float of an int, \<^verbatim>\<open>float(i)\<close>: the nearest float; an int beyond the largest
  float is an \<^verbatim>\<open>OverflowError\<close>. \<open>float_lit i\<close> is also the float literal \<^verbatim>\<open>i.0\<close>.
\<close>

definition float_lit :: "int \<Rightarrow> double" where
  "float_lit i = round_double (i < 0) (nat \<bar>i\<bar>) 0"

definition double_of_int :: "int \<Rightarrow> double option" where
  "double_of_int i = (case float_lit i of Infinity s \<Rightarrow> None | x \<Rightarrow> Some x)"

text \<open>
  \<^verbatim>\<open>math.radians(x)\<close> is the product \<^verbatim>\<open>x * degToRad\<close> and \<^verbatim>\<open>math.degrees(x)\<close> is
  \<^verbatim>\<open>x * radToDeg\<close>. The two constants of the math module are the floats that
  \<^verbatim>\<open>pi / 180.0\<close> and \<^verbatim>\<open>180.0 / pi\<close> evaluate to, \<^verbatim>\<open>pi\<close> being the float nearest to
  \<open>\<pi>\<close>: \<^verbatim>\<open>0x1.1df46a2529d39p-6\<close> and \<^verbatim>\<open>0x1.ca5dc1a63c1f8p+5\<close>.
\<close>

definition degToRad :: double where
  "degToRad = Finite False 5030569068109113 (- 58)"

definition radToDeg :: double where
  "radToDeg = Finite False 8063664102031864 (- 47)"

definition radians_double :: "double \<Rightarrow> double" where
  "radians_double x = fmul x degToRad"

definition degrees_double :: "double \<Rightarrow> double" where
  "degrees_double x = fmul x radToDeg"

text \<open>The float operations of the runtime.\<close>

definition ieee_math :: "double mathlib" where
  "ieee_math = \<lparr>f_radians = radians_double, f_degrees = degrees_double, f_add = fadd,
     f_of_int = double_of_int\<rparr>"

section \<open>Specification predicates\<close>

text \<open>
  Any change of a list object in place (\<^verbatim>\<open>append\<close>, item assignment, \<^verbatim>\<open>del\<close>,
  \<^verbatim>\<open>sort\<close>) leaves the object at its address with new items.
\<close>

definition mutate_list :: "addr \<Rightarrow> 'f pyval list \<Rightarrow> 'f heap \<Rightarrow> 'f heap" where
  "mutate_list a ys h = h[a := PList ys]"

text \<open>
  What the claim about the degree views says of one property, \<open>fld\<close> being its radian
  attribute: the getter is \<^verbatim>\<open>math.degrees\<close> of the attribute; the setter stores
  \<^verbatim>\<open>math.radians\<close> of its argument there, changes no other attribute, and raises only
  what \<^verbatim>\<open>math.radians\<close> raises; writing a float \<open>x\<close> and reading back gives
  \<^verbatim>\<open>degrees(radians(x))\<close>.
\<close>

definition degree_view ::
  "'f mathlib \<Rightarrow> string \<Rightarrow> ('f target \<Rightarrow> pyerror + 'f) \<Rightarrow>
   ('f pyval \<Rightarrow> 'f target \<Rightarrow> pyerror + 'f target) \<Rightarrow> bool" where
  "degree_view M fld getter setter =
     ((\<forall>t. getter t = bindE (getattr_inst t fld) (math_degrees M))
      \<and> (\<forall>v t. setter v t =
            bindE (math_radians M v) (\<lambda>r. Inr (AList.update fld (PFloat r) t)))
      \<and> (\<forall>v t t'. setter v t = Inr t' \<longrightarrow>
            (\<exists>r. math_radians M v = Inr r \<and> map_of t' fld = Some (PFloat r))
          \<and> (\<forall>k. k \<noteq> fld \<longrightarrow> map_of t' k = map_of t k))
      \<and> (\<forall>v t e. setter v t = Inl e \<longrightarrow> math_radians M v = Inl e)
      \<and> (\<forall>x t. \<exists>t'. setter (PFloat x) t = Inr t'
            \<and> getter t' = Inr (f_degrees M (f_radians M x))))"

text \<open>
  The round-trip tolerance. A finite float \<open>y\<close> is close to the finite float \<open>x\<close> when
  it has the sign of \<open>x\<close> and differs from it by at most \<^verbatim>\<open>2**-51\<close> times the size of \<open>x\<close> or, for \<open>x\<close> so near to zero that its radians have
  fewer than 53 bits, by at most \<^verbatim>\<open>2**-1069\<close>. An infinity and the NaN are close to
  themselves only.
\<close>

definition close_to :: "double \<Rightarrow> double \<Rightarrow> bool" where
  "close_to x y =
     (case x of
        Finite s m e \<Rightarrow>
          (\<exists>m' e'. y = Finite s m' e')
          \<and> \<bar>valof y - valof x\<bar> \<le> \<bar>valof x\<bar> / 2 ^ 51 + 2 powi (- 1069)
      | _ \<Rightarrow> y = x)"

text \<open>
  Write then read, on the floats of the runtime: writing any float \<open>x\<close> through the
  setter succeeds, and reading through the getter then returns a float close to \<open>x\<close>;
  writing an int that has a float is writing that float.
\<close>

definition round_trip ::
  "(double target \<Rightarrow> pyerror + double) \<Rightarrow>
   (double pyval \<Rightarrow> double target \<Rightarrow> pyerror + double target) \<Rightarrow> bool" where
  "round_trip getter setter =
     ((\<forall>x t. is_double x \<longrightarrow>
         (\<exists>t' y. setter (PFloat x) t = Inr t' \<and> getter t' = Inr y \<and> is_double y \<and> close_to x y))
      \<and> (\<forall>i x t. double_of_int i = Some x \<longrightarrow>
            is_double x \<and> setter (PInt i) t = setter (PFloat x) t))"

text \<open>
  The number that a value denotes, floats being read as real numbers by \<open>val\<close>.
  Python's \<^verbatim>\<open>==\<close> compares an int and a float by the numbers they denote.
\<close>

definition num_value :: "('f \<Rightarrow> real) \<Rightarrow> 'f pyval \<Rightarrow> real option" where
  "num_value val v =
     (case v of
        PInt i \<Rightarrow> Some (of_int i)
      | PBool b \<Rightarrow> Some (if b then 1 else 0)
      | PFloat x \<Rightarrow> Some (val x)
      | _ \<Rightarrow> None)"

definition topic_args :: "'f topic \<Rightarrow> 'f \<Rightarrow> 'f \<Rightarrow> 'f \<Rightarrow> 'f init_args" where
  "topic_args tp r d s =
     \<lparr>arg_targetid = Some (topic_targetId tp), arg_fieldid = Some (PInt (- 1)),
      arg_band_filter = Some (topic_filter tp), arg_ra_rad = Some (PFloat r),
      arg_dec_rad = Some (PFloat d), arg_ang_rad = Some (PFloat s),
      arg_num_exp = Some (topic_numExposures tp),
      arg_exp_times = Some (topic_exposureTimes tp)\<rparr>"

definition degree_names :: "string list" where
  "degree_names = [''alt'', ''ang'', ''az'', ''dec'', ''ra'', ''rot'', ''telalt'', ''telaz'', ''telrot'']"

definition descriptor_names :: "string list" where
  "descriptor_names = degree_names @ [''exp_time'', ''__class__'', ''__dict__'', ''__weakref__'']"

text \<open>The attributes that \<^verbatim>\<open>__init__\<close> creates: the field names of the class.\<close>

definition target_fields :: "string list" where
  "target_fields =
     [''targetid'', ''fieldid'', ''filter'', ''ra_rad'', ''dec_rad'', ''ang_rad'', ''num_exp'',
      ''exp_times'', ''_exp_time'', ''time'', ''airmass'', ''sky_brightness'', ''cloud'',
      ''seeing'', ''alt_rad'', ''az_rad'', ''rot_rad'', ''telalt_rad'', ''telaz_rad'',
      ''telrot_rad'', ''slewtime'', ''note'']"

fun lookup_last :: "string \<Rightarrow> (string \<times> 'v) list \<Rightarrow> 'v option" where
  "lookup_last k [] = None"
| "lookup_last k ((k', v) # kvs) =
     (case lookup_last k kvs of
        Some w \<Rightarrow> Some w
      | None \<Rightarrow> if k' = k then Some v else None)"


definition json_is_object :: "'f json \<Rightarrow> bool" where
  "json_is_object j = (case j of JObj ms \<Rightarrow> True | _ \<Rightarrow> False)"


text \<open>\<open>v\<close> is a value that \<^verbatim>\<open>json.loads\<close> has built for \<open>j\<close> in a store that \<open>h\<close> extends.\<close>

definition loaded :: "'f heap \<Rightarrow> 'f json \<Rightarrow> 'f pyval \<Rightarrow> bool" where
  "loaded h j v = (\<exists>hx hy e. json_loads j hx = (v, hy) \<and> h = hy @ e)"

text \<open>
  A JSON document in which no object has two members of one name: the documents that
  \<^verbatim>\<open>json.dumps\<close> writes.
\<close>

fun nodup :: "'f json \<Rightarrow> bool"
  and nodup_list :: "'f json list \<Rightarrow> bool"
  and nodup_members :: "(string \<times> 'f json) list \<Rightarrow> bool"
where
  "nodup (JArr js) = nodup_list js"
| "nodup (JObj ms) = (distinct (map fst ms) \<and> nodup_members ms)"
| "nodup JNull = True"
| "nodup (JBool b) = True"
| "nodup (JInt i) = True"
| "nodup (JFloat x) = True"
| "nodup (JStr s) = True"
| "nodup_list [] = True"
| "nodup_list (j # js) = (nodup j \<and> nodup_list js)"
| "nodup_members [] = True"
| "nodup_members ((k, j) # ms) = (nodup j \<and> nodup_members ms)"

text \<open>The addresses that a value and an object refer to.\<close>

definition val_refs :: "'f pyval \<Rightarrow> addr list" where
  "val_refs v = (case v of PRef a \<Rightarrow> [a] | _ \<Rightarrow> [])"

definition obj_refs :: "'f pyobj \<Rightarrow> addr list" where
  "obj_refs ob =
     (case ob of
        PList vs \<Rightarrow> concat (map val_refs vs)
      | PDict kvs \<Rightarrow> concat (map (\<lambda>kv. val_refs (snd kv)) kvs))"

text \<open>
  A store of Python objects: the keys of a dict are distinct, every reference in an
  object is allocated, and \<open>rk\<close> ranks every container above the containers it holds,
  which says that no container holds itself, directly or through others.
\<close>

definition wf_heap :: "'f heap \<Rightarrow> bool" where
  "wf_heap h =
     list_all (\<lambda>ob. case ob of PDict kvs \<Rightarrow> distinct (map fst kvs) | PList vs \<Rightarrow> True) h"

definition ranked :: "'f heap \<Rightarrow> (addr \<Rightarrow> nat) \<Rightarrow> bool" where
  "ranked h rk = (\<forall>a<length h. \<forall>b\<in>set (obj_refs (h ! a)). b < length h \<and> rk b < rk a)"

text \<open>
  An instance of the class in a store: it has the attributes of the class once each
  (and maybe more), none under the name of a property or of a special attribute (such
  a name never reaches the instance dictionary through attribute assignment), its
  values refer to allocated objects, and the store holds Python objects without
  cycles.
\<close>

definition target_ok :: "'f heap \<Rightarrow> (addr \<Rightarrow> nat) \<Rightarrow> 'f target \<Rightarrow> bool" where
  "target_ok h rk t =
     (distinct (map fst t)
      \<and> set target_fields \<subseteq> set (map fst t)
      \<and> set (map fst t) \<inter> set descriptor_names = {}
      \<and> (\<forall>b\<in>set (concat (map (\<lambda>kv. val_refs (snd kv)) t)). b < length h)
      \<and> wf_heap h \<and> ranked h rk)"

section \<open>Examples\<close>

text \<open>
  An instance of the runtime's float operations over the rationals, and the stores,
  instances, arguments, topics and JSON objects of the examples.
\<close>

definition example_math :: "rat mathlib" where
  "example_math = \<lparr>f_radians = (\<lambda>x. x * (314159 / 18000000)),
     f_degrees = (\<lambda>x. x * (18000000 / 314159)),
     f_add = (\<lambda>x y. x + y),
     f_of_int = (\<lambda>i. Some (of_int i))\<rparr>"

definition example_heap :: "rat heap" where
  "example_heap = [PList [PFloat 15, PFloat 15]]"

definition example_args :: "rat init_args" where
  "example_args = no_args\<lparr>arg_targetid := Some (PInt 7), arg_exp_times := Some (PRef 0)\<rparr>"

definition example_source :: "rat target" where
  "example_source =
     [(''alt_rad'', PFloat 1), (''az_rad'', PFloat 2), (''rot_rad'', PFloat 3),
      (''telalt_rad'', PFloat 4), (''telaz_rad'', PFloat 5), (''telrot_rad'', PFloat 6),
      (''ang_rad'', PFloat 7), (''slewtime'', PFloat 8)]"

definition example_dest :: "rat target" where
  "example_dest =
     [(''targetid'', PInt 9), (''ra_rad'', PFloat 11), (''ang_rad'', PFloat 0),
      (''alt_rad'', PFloat 0), (''slewtime'', PFloat 0), (''note'', PStr ''n'')]"

definition example_topic :: "rat topic" where
  "example_topic = \<lparr>topic_targetId = PInt 3, topic_filter = PStr ''r'', topic_ra = PFloat 45,
     topic_decl = PFloat (- 30), topic_skyAngle = PFloat 90, topic_numExposures = PInt 2,
     topic_exposureTimes = PRef 0\<rparr>"

definition example_target :: "rat target" where
  "example_target = exp_time_setter (PFloat 5) (init_fields no_args (PRef 0))"

definition example_stored :: "rat target" where
  "example_stored = exp_time_setter (PFloat 5) (init_fields example_args (PRef 0))"


definition example_missing :: "(string \<times> rat json) list" where
  "example_missing =
     [(''targetid'', JInt 1), (''fieldid'', JInt 2), (''filter'', JStr ''r''),
      (''dec_rad'', JFloat 0), (''ang_rad'', JFloat 0),
      (''num_exp'', JInt 1), (''exp_times'', JArr [JFloat 15])]"


text \<open>A topic and a store on the floats of the runtime.\<close>

definition example_heap_ieee :: "double heap" where
  "example_heap_ieee = [PList [PFloat (float_lit 15), PFloat (float_lit 15)]]"

definition example_topic_ieee :: "double topic" where
  "example_topic_ieee = \<lparr>topic_targetId = PInt 3, topic_filter = PStr ''r'',
     topic_ra = PFloat (float_lit 45), topic_decl = PFloat (float_lit (- 30)),
     topic_skyAngle = PInt 90, topic_numExposures = PInt 2, topic_exposureTimes = PRef 0\<rparr>"

section \<open>Basic facts\<close>

lemma bindE_Inl [simp]: "bindE (Inl e) f = Inl e"
  by (simp add: bindE_def)

lemma bindE_Inr [simp]: "bindE (Inr x) f = f x"
  by (simp add: bindE_def)

lemma map_of_update_other: "k' \<noteq> k \<Longrightarrow> map_of (AList.update k v t) k' = map_of t k'"
  by (simp add: update_conv')

lemma map_of_update_same: "map_of (AList.update k v t) k = Some v"
  by (simp add: update_conv')

lemma update_same_value: "map_of t k = Some v \<Longrightarrow> AList.update k v t = t"
  by (induction t) (auto split: if_splits)

lemma copy_attrs_present:
  "\<forall>k\<in>set ks. map_of src k \<noteq> None \<Longrightarrow>
   \<exists>d. copy_attrs ks src dst = Inr d \<and>
       map_of d = (\<lambda>k. if k \<in> set ks then map_of src k else map_of dst k) \<and>
       set (map fst d) = set (map fst dst) \<union> set ks"
proof (induction ks arbitrary: dst)
  case Nil
  then show ?case by simp
next
  case (Cons k ks)
  then obtain v where v: "map_of src k = Some v" by auto
  let ?d1 = "AList.update k v dst"
  from Cons.prems have "\<forall>k\<in>set ks. map_of src k \<noteq> None" by simp
  from Cons.IH[OF this, of ?d1] obtain d where
    d: "copy_attrs ks src ?d1 = Inr d"
       "map_of d = (\<lambda>k. if k \<in> set ks then map_of src k else map_of ?d1 k)"
       "set (map fst d) = set (map fst ?d1) \<union> set ks" by blast
  have "copy_attrs (k # ks) src dst = Inr d"
    using v d(1) by (simp add: copy_attr_def getattr_inst_def)
  moreover have "map_of d = (\<lambda>k'. if k' \<in> set (k # ks) then map_of src k' else map_of dst k')"
    using d(2) v by (auto simp: update_conv' fun_eq_iff)
  moreover have "set (map fst d) = set (map fst dst) \<union> set (k # ks)"
    using d(3) by (auto simp: update_keys)
  ultimately show ?case by blast
qed

lemma copy_attrs_same_present:
  "\<forall>k\<in>set ks. map_of self k \<noteq> None \<Longrightarrow> copy_attrs_same ks self = Inr self"
proof (induction ks)
  case Nil
  then show ?case by simp
next
  case (Cons k ks)
  then obtain v where v: "map_of self k = Some v" by auto
  then show ?case using Cons
    by (simp add: copy_attr_def getattr_inst_def update_same_value)
qed

lemma getattr_update_other:
  "k' \<noteq> k \<Longrightarrow> getattr_inst (AList.update k v t) k' = getattr_inst t k'"
  by (simp add: getattr_inst_def update_conv')

lemma getattr_update_same: "getattr_inst (AList.update k v t) k = Inr v"
  by (simp add: getattr_inst_def update_conv')

lemma py_iter_list: "a < length h \<Longrightarrow> h ! a = PList xs \<Longrightarrow> py_iter h (PRef a) = Inr xs"
  by (simp add: py_iter_def)

section \<open>Facts of the floating-point arithmetic\<close>

subsection \<open>Rounding\<close>

lemma rne_cases: "rne m d = m div 2 ^ d \<or> rne m d = m div 2 ^ d + 1"
  by (simp add: rne_def Let_def)

lemma rne_error_nat:
  "2 * (rne m d * 2 ^ d) \<le> 2 * m + 2 ^ d \<and> 2 * m \<le> 2 * (rne m d * 2 ^ d) + 2 ^ d"
proof -
  define q where "q = m div 2 ^ d"
  define r where "r = m mod 2 ^ d"
  define p :: nat where "p = 2 ^ d"
  have m: "m = q * p + r" unfolding q_def r_def p_def by (rule div_mult_mod_eq[symmetric])
  have r: "r < p" by (simp add: r_def p_def)
  show ?thesis
  proof (cases "p < 2 * r \<or> (2 * r = p \<and> odd q)")
    case True
    then have "rne m d = q + 1" by (simp add: rne_def Let_def q_def r_def p_def)
    moreover from True have "p \<le> 2 * r" by auto
    ultimately show ?thesis using m r unfolding p_def[symmetric] by (simp add: algebra_simps)
  next
    case False
    then have "rne m d = q" by (simp add: rne_def Let_def q_def r_def p_def)
    moreover from False have "2 * r \<le> p" by auto
    ultimately show ?thesis using m r unfolding p_def[symmetric] by (simp add: algebra_simps)
  qed
qed

lemma rne_error: "\<bar>real (rne m d) * 2 ^ d - real m\<bar> \<le> 2 ^ d / 2"
proof -
  define A where "A = real (rne m d) * 2 ^ d"
  define p :: real where "p = 2 ^ d"
  from rne_error_nat[of m d]
  have "real (2 * (rne m d * 2 ^ d)) \<le> real (2 * m + 2 ^ d)"
    and "real (2 * m) \<le> real (2 * (rne m d * 2 ^ d) + 2 ^ d)"
    unfolding of_nat_le_iff by simp_all
  then have "2 * A \<le> 2 * real m + p" and "2 * real m \<le> 2 * A + p"
    by (simp_all add: A_def p_def)
  then have "\<bar>A - real m\<bar> \<le> p / 2" by linarith
  then show ?thesis unfolding A_def p_def .
qed

lemma rne_le_half_up:
  assumes "0 < d" and "m + 2 ^ (d - 1) < (k + 1) * 2 ^ d"
  shows "rne m d \<le> k"
proof -
  from assms(1) have p: "(2::nat) ^ d = 2 * 2 ^ (d - 1)"
    by (cases d) simp_all
  from rne_error_nat[of m d] have "2 * (rne m d * 2 ^ d) \<le> 2 * (m + 2 ^ (d - 1))"
    using p by simp
  also have "\<dots> < 2 * ((k + 1) * 2 ^ d)" using assms(2) by simp
  finally have "rne m d * 2 ^ d < (k + 1) * 2 ^ d" by simp
  then have "rne m d < k + 1" by (rule mult_less_cancel2[THEN iffD1, THEN conjunct2])
  then show ?thesis by simp
qed

lemma rne_less_pow:
  assumes "m < 2 ^ (d + k)"
  shows "rne m d \<le> 2 ^ k"
proof -
  have "m div 2 ^ d < 2 ^ k"
    using assms by (simp add: power_add less_mult_imp_div_less mult.commute)
  with rne_cases[of m d] show ?thesis by auto
qed

lemma rne_ge_pow:
  assumes "2 ^ (d + k) \<le> m"
  shows "2 ^ k \<le> rne m d"
proof -
  have "2 ^ (d + k) div 2 ^ d \<le> m div (2::nat) ^ d"
    using assms by (rule div_le_mono)
  then have "2 ^ k \<le> m div (2::nat) ^ d" by (simp add: power_add)
  with rne_cases[of m d] show ?thesis by auto
qed

lemma pw_pos: "0 < (2::real) powi a"
  by (simp add: zero_less_power_int)

lemma pw_add: "(2::real) powi (a + b) = 2 powi a * 2 powi b"
  by (simp add: power_int_add)

lemma pw_shift: "a \<le> b \<Longrightarrow> (2::real) powi b = 2 ^ nat (b - a) * 2 powi a"
proof -
  assume "a \<le> b"
  then have "(2::real) powi (b - a) = 2 ^ nat (b - a)"
    by (simp add: power_int_nonneg_exp)
  moreover have "(2::real) powi b = 2 powi (b - a) * 2 powi a"
    using pw_add[of "b - a" a] by simp
  ultimately show ?thesis by simp
qed

lemma pw_mono: "a \<le> b \<Longrightarrow> (2::real) powi a \<le> 2 powi b"
  by (rule power_int_increasing) simp_all

lemma pw_half: "(2::real) powi a / 2 = 2 powi (a - 1)"
  using pw_add[of "a - 1" 1] by simp

lemma floorlog2_bounds: "0 < m \<Longrightarrow> 2 ^ (floorlog 2 m - 1) \<le> m \<and> m < 2 ^ floorlog 2 m"
  using floorlog_bounds[of m 2] by simp

lemma floorlog2_pos: "0 < m \<Longrightarrow> 0 < floorlog 2 m"
  by (simp add: floorlog_def)

lemma round_double_zero: "round_double s 0 e = Finite s 0 (- 1074)"
  by (simp add: round_double_def)

lemma round_double_exact:
  assumes m: "0 < m" and E: "E = max (e + int (floorlog 2 m) - 53) (- 1074)" and le: "E \<le> e"
  shows "round_double s m e = (if 971 < E then Infinity s else Finite s (m * 2 ^ nat (e - E)) E)"
    and "m * 2 ^ nat (e - E) < 2 ^ 53"
proof -
  define l where "l = floorlog 2 m"
  have ml: "m < 2 ^ l" using floorlog2_bounds[OF m] by (simp add: l_def)
  have "e + int l - 53 \<le> E" using E by (simp add: l_def)
  then have "nat (e - E) + l \<le> 53" using le by linarith
  then have "(2::nat) ^ (nat (e - E) + l) \<le> 2 ^ 53"
    by (intro power_increasing) simp_all
  moreover have "m * 2 ^ nat (e - E) < 2 ^ l * 2 ^ nat (e - E)"
    using ml by simp
  moreover have "(2::nat) ^ l * 2 ^ nat (e - E) = 2 ^ (nat (e - E) + l)"
    by (simp only: power_add mult.commute)
  ultimately show lt: "m * 2 ^ nat (e - E) < 2 ^ 53"
    by (simp only: less_le_trans)
  then have ne: "m * 2 ^ nat (e - E) \<noteq> 2 ^ 53" by simp
  show "round_double s m e = (if 971 < E then Infinity s else Finite s (m * 2 ^ nat (e - E)) E)"
    unfolding round_double_def Let_def E[symmetric]
    using m le ne by simp
qed

lemma round_double_rounded:
  assumes m: "0 < m" and E: "E = max (e + int (floorlog 2 m) - 53) (- 1074)" and lt: "e < E"
  shows "round_double s m e =
           (if rne m (nat (E - e)) = 2 ^ 53
            then (if 971 \<le> E then Infinity s else Finite s (2 ^ 52) (E + 1))
            else if 971 < E then Infinity s else Finite s (rne m (nat (E - e))) E)"
    and "rne m (nat (E - e)) \<le> 2 ^ 53"
proof -
  define l where "l = floorlog 2 m"
  have ml: "m < 2 ^ l" using floorlog2_bounds[OF m] by (simp add: l_def)
  have "e + int l - 53 \<le> E" using E by (simp add: l_def)
  then have "l \<le> nat (E - e) + 53" using lt by linarith
  then have "(2::nat) ^ l \<le> 2 ^ (nat (E - e) + 53)"
    by (intro power_increasing) simp_all
  then have "m < 2 ^ (nat (E - e) + 53)" by (rule less_le_trans[OF ml])
  then show "rne m (nat (E - e)) \<le> 2 ^ 53" by (rule rne_less_pow)
  show "round_double s m e =
           (if rne m (nat (E - e)) = 2 ^ 53
            then (if 971 \<le> E then Infinity s else Finite s (2 ^ 52) (E + 1))
            else if 971 < E then Infinity s else Finite s (rne m (nat (E - e))) E)"
    unfolding round_double_def Let_def E[symmetric]
    using m lt by simp
qed

text \<open>The value of a finite result.\<close>

lemma round_double_value:
  assumes r: "round_double s m e = Finite s' m' e'"
    and E: "E = max (e + int (floorlog 2 m) - 53) (- 1074)"
  shows "s' = s"
    and "real m' * 2 powi e' =
           (if m = 0 \<or> E \<le> e then real m * 2 powi e
            else real (rne m (nat (E - e))) * 2 powi E)"
proof -
  have "s' = s \<and> real m' * 2 powi e' =
           (if m = 0 \<or> E \<le> e then real m * 2 powi e
            else real (rne m (nat (E - e))) * 2 powi E)"
  proof (cases "m = 0")
    case True
    with r show ?thesis by (simp add: round_double_zero)
  next
    case False
    then have m: "0 < m" by simp
    show ?thesis
    proof (cases "E \<le> e")
      case True
      from r round_double_exact(1)[OF m E True, of s]
      have "Finite s' m' e' = (if 971 < E then Infinity s else Finite s (m * 2 ^ nat (e - E)) E)"
        by simp
      then have eq: "s' = s" "m' = m * 2 ^ nat (e - E)" "e' = E"
        by (auto split: if_splits)
      have "real m' * 2 powi e' = real m * (2 ^ nat (e - E) * 2 powi E)"
        by (simp add: eq)
      also have "\<dots> = real m * 2 powi e"
        using pw_shift[OF True] by simp
      finally show ?thesis using True eq(1) by simp
    next
      case False
      then have lt: "e < E" by simp
      from r round_double_rounded(1)[OF m E lt, of s]
      have "Finite s' m' e' =
           (if rne m (nat (E - e)) = 2 ^ 53
            then (if 971 \<le> E then Infinity s else Finite s (2 ^ 52) (E + 1))
            else if 971 < E then Infinity s else Finite s (rne m (nat (E - e))) E)"
        by simp
      then have "s' = s \<and> ((rne m (nat (E - e)) = 2 ^ 53 \<and> m' = 2 ^ 52 \<and> e' = E + 1)
              \<or> (m' = rne m (nat (E - e)) \<and> e' = E))"
        by (auto split: if_splits)
      moreover have "(2::real) ^ 52 * 2 powi (E + 1) = 2 ^ 53 * 2 powi E"
        by (simp add: pw_add)
      ultimately show ?thesis using False m by auto
    qed
  qed
  then show "s' = s"
    and "real m' * 2 powi e' =
           (if m = 0 \<or> E \<le> e then real m * 2 powi e
            else real (rne m (nat (E - e))) * 2 powi E)"
    by simp_all
qed

lemma rne_value_error:
  assumes lt: "e < E"
  shows "\<bar>real (rne m (nat (E - e))) * 2 powi E - real m * 2 powi e\<bar> \<le> 2 powi (E - 1)"
proof -
  define d where "d = nat (E - e)"
  have sh: "(2::real) powi E = 2 ^ d * 2 powi e"
    using pw_shift[of e E] lt by (simp add: d_def)
  have "real (rne m d) * 2 powi E - real m * 2 powi e =
          (real (rne m d) * 2 ^ d - real m) * 2 powi e"
    by (simp add: sh algebra_simps)
  then have "\<bar>real (rne m d) * 2 powi E - real m * 2 powi e\<bar> =
          \<bar>real (rne m d) * 2 ^ d - real m\<bar> * 2 powi e"
    using pw_pos[of e] by (simp add: abs_mult)
  also have "\<dots> \<le> 2 ^ d / 2 * 2 powi e"
    using rne_error[of m d] pw_pos[of e] by (simp add: mult_right_mono)
  also have "\<dots> = 2 powi (E - 1)"
    using sh pw_half[of E] by simp
  finally show ?thesis by (simp add: d_def)
qed

lemma pw_m53: "(2::real) powi (- 53) = 1 / 2 ^ 53"
  by (simp add: power_int_def power_one_over)

lemma round_double_error:
  assumes r: "round_double s m e = Finite s' m' e'"
  shows "\<bar>real m' * 2 powi e' - real m * 2 powi e\<bar>
           \<le> real m * 2 powi e / 2 ^ 53 + 2 powi (- 1075)"
proof -
  define E where "E = max (e + int (floorlog 2 m) - 53) (- 1074)"
  define \<eta> :: real where "\<eta> = 2 powi (- 1075)"
  define a where "a = real m * 2 powi e"
  define b where "b = real m' * 2 powi e'"
  have \<eta>: "0 \<le> \<eta>" using pw_pos[of "- 1075"] by (simp add: \<eta>_def)
  have a: "0 \<le> a" using pw_pos[of e] by (simp add: a_def)
  note v = round_double_value(2)[OF r E_def]
  have "\<bar>b - a\<bar> \<le> a / 2 ^ 53 + \<eta>"
  proof (cases "m = 0 \<or> E \<le> e")
    case True
    with v have "b = a" by (simp add: a_def b_def)
    with a \<eta> show ?thesis by simp
  next
    case False
    then have m: "0 < m" and lt: "e < E" by simp_all
    from v False have v': "b = real (rne m (nat (E - e))) * 2 powi E"
      by (simp add: b_def)
    have "2 powi (E - 1) \<le> a / 2 ^ 53 + \<eta>"
    proof (cases "E = - 1074")
      case True
      then have "(2::real) powi (E - 1) = \<eta>" by (simp add: \<eta>_def)
      moreover have "0 \<le> a / 2 ^ 53" using a by simp
      ultimately show ?thesis by linarith
    next
      case False
      define l where "l = floorlog 2 m"
      from False have El: "E = e + int l - 53"
        by (simp add: E_def l_def max_def split: if_splits)
      have lpos: "0 < l" using floorlog2_pos[OF m] by (simp add: l_def)
      have "2 ^ (l - 1) \<le> m" using floorlog2_bounds[OF m] by (simp add: l_def)
      then have "real (2 ^ (l - 1)) \<le> real m" by (simp only: of_nat_le_iff)
      then have "(2::real) ^ (l - 1) \<le> real m" by simp
      then have "2 ^ (l - 1) * 2 powi e \<le> a"
        unfolding a_def using pw_pos[of e] by (simp add: mult_right_mono)
      then have "2 ^ (l - 1) * 2 powi e / 2 ^ 53 \<le> a / 2 ^ 53"
        by (simp add: divide_right_mono)
      moreover have "(2::real) ^ (l - 1) * 2 powi e / 2 ^ 53 = 2 powi (E - 1)"
      proof -
        have "int (l - 1) = int l - 1" using lpos by simp
        then have "(2::real) ^ (l - 1) = 2 powi (int l - 1)"
          by (metis power_int_of_nat)
        moreover have "E - 1 = (int l - 1) + (e + (- 53))" using El by simp
        then have "(2::real) powi (E - 1) = 2 powi (int l - 1) * (2 powi e * 2 powi (- 53))"
          by (simp only: pw_add)
        ultimately show ?thesis by (simp only: pw_m53) simp
      qed
      ultimately show ?thesis using \<eta> by linarith
    qed
    with rne_value_error[OF lt, of m] v' show ?thesis unfolding a_def by linarith
  qed
  then show ?thesis unfolding a_def b_def \<eta>_def .
qed

lemma round_double_finite:
  assumes b: "real m * 2 powi e \<le> (2 ^ 53 - 1) * 2 powi 971"
  shows "\<exists>m' e'. round_double s m e = Finite s m' e'"
proof (cases "m = 0")
  case True
  then show ?thesis by (simp add: round_double_zero)
next
  case False
  then have m: "0 < m" by simp
  define l where "l = floorlog 2 m"
  define E where "E = max (e + int l - 53) (- 1074)"
  define B :: real where "B = 2 powi 971"
  define a where "a = real m * 2 powi e"
  have B: "0 < B" unfolding B_def by (rule pw_pos)
  have ab: "a \<le> (2 ^ 53 - 1) * B" using b by (simp only: a_def B_def)
  have E: "E = max (e + int (floorlog 2 m) - 53) (- 1074)" by (simp add: E_def l_def)
  have lpos: "0 < l" using floorlog2_pos[OF m] by (simp add: l_def)
  have el: "e + int l \<le> 1024"
  proof (rule ccontr)
    assume "\<not> e + int l \<le> 1024"
    then have ge: "971 + 53 \<le> e + (int l - 1)" by simp
    have "2 ^ (l - 1) \<le> m" using floorlog2_bounds[OF m] by (simp add: l_def)
    then have "real (2 ^ (l - 1)) \<le> real m" by (simp only: of_nat_le_iff)
    then have "(2::real) ^ (l - 1) \<le> real m" by simp
    then have "2 ^ (l - 1) * 2 powi e \<le> a"
      unfolding a_def using pw_pos[of e] by (simp add: mult_right_mono)
    moreover have "int (l - 1) = int l - 1" using lpos by simp
    then have "(2::real) ^ (l - 1) = 2 powi (int l - 1)" by (metis power_int_of_nat)
    then have "(2::real) ^ (l - 1) * 2 powi e = 2 powi (e + (int l - 1))"
      by (simp only: pw_add mult.commute)
    moreover have "(2::real) powi (971 + 53) \<le> 2 powi (e + (int l - 1))"
      using ge by (rule pw_mono)
    moreover have "(2::real) powi (971 + 53) = B * 2 ^ 53"
      unfolding B_def by (simp only: pw_add power_int_numeral)
    ultimately have "B * 2 ^ 53 \<le> a" by linarith
    with ab B show False by (simp add: algebra_simps)
  qed
  then have E971: "E \<le> 971" by (simp add: E_def)
  show ?thesis
  proof (cases "E \<le> e")
    case True
    from round_double_exact(1)[OF m E True, of s] E971 show ?thesis by simp
  next
    case False
    then have lt: "e < E" by simp
    have "\<not> (rne m (nat (E - e)) = 2 ^ 53 \<and> 971 \<le> E)"
    proof
      assume h: "rne m (nat (E - e)) = 2 ^ 53 \<and> 971 \<le> E"
      with E971 have E': "E = 971" by simp
      from rne_value_error[OF lt, of m] h
      have "\<bar>2 ^ 53 * 2 powi E - a\<bar> \<le> 2 powi (E - 1)" by (simp add: a_def)
      moreover have "(2::real) powi (E - 1) = B / 2"
        unfolding B_def E' using pw_half[of 971] by simp
      moreover have "(2::real) powi E = B" by (simp only: E' B_def)
      ultimately have "\<bar>2 ^ 53 * B - a\<bar> \<le> B / 2" by (simp only:)
      then have "2 ^ 53 * B - B / 2 \<le> a" by linarith
      with ab B show False by (simp add: algebra_simps)
    qed
    with round_double_rounded(1)[OF m E lt, of s] E971 show ?thesis
      by (auto split: if_splits)
  qed
qed

subsection \<open>Degrees of radians\<close>

lemma pw_m58: "(2::real) powi (- 58) = 1 / 2 ^ 58"
  by (simp add: power_int_def power_one_over)

lemma pw_m47: "(2::real) powi (- 47) = 1 / 2 ^ 47"
  by (simp add: power_int_def power_one_over)

lemma radians_double_Finite:
  "radians_double (Finite s m e) = round_double s (m * 5030569068109113) (e - 58)"
  by (simp add: radians_double_def degToRad_def)

lemma degrees_double_Finite:
  "degrees_double (Finite s m e) = round_double s (m * 8063664102031864) (e - 47)"
  by (simp add: degrees_double_def radToDeg_def)

lemma radians_exact_value:
  "real (m * 5030569068109113) * 2 powi (e - 58) = real m * 2 powi e * (5030569068109113 / 2 ^ 58)"
proof -
  have "(2::real) powi (e - 58) = 2 powi e * 2 powi (- 58)"
    using pw_add[of e "- 58"] by simp
  then show ?thesis by (simp only: pw_m58 of_nat_mult) simp
qed

lemma degrees_exact_value:
  "real (m * 8063664102031864) * 2 powi (e - 47) = real m * 2 powi e * (8063664102031864 / 2 ^ 47)"
proof -
  have "(2::real) powi (e - 47) = 2 powi e * 2 powi (- 47)"
    using pw_add[of e "- 47"] by simp
  then show ?thesis by (simp only: pw_m47 of_nat_mult) simp
qed

text \<open>The radians of a double of the last binade stay below a double whose degrees are finite.\<close>

lemma radians_top_binade:
  assumes m: "2 ^ 52 \<le> m" "m < 2 ^ 53"
    and r: "round_double s (m * 5030569068109113) 913 = Finite s' m' e'"
  shows "real m' * 2 powi e' \<le> 5030569068109112 * 2 powi 966"
proof -
  define P where "P = m * 5030569068109113"
  define l where "l = floorlog 2 P"
  define E where "E = max (913 + int l - 53) (- 1074)"
  have E: "E = max (913 + int (floorlog 2 P) - 53) (- 1074)" by (simp add: E_def l_def)
  have "2 ^ 52 * 5030569068109113 \<le> P"
    unfolding P_def using m(1) by (rule mult_le_mono1)
  then have Plow: "2 ^ 104 \<le> P" by simp
  have "m \<le> 2 ^ 53 - 1" using m(2) by simp
  then have "P \<le> (2 ^ 53 - 1) * 5030569068109113"
    unfolding P_def by (rule mult_le_mono1)
  then have Pmax: "P \<le> 45311337961195484208548941750983" by simp
  then have Phigh: "P < 2 ^ 106" by simp
  have "Suc 104 \<le> l" unfolding l_def using Plow by (rule floorlog_ge_SucI) simp
  moreover have "l \<le> 106" unfolding l_def using Phigh by (rule floorlog_leI) simp_all
  ultimately have l: "l = 105 \<or> l = 106" by linarith
  then have El: "E = 860 + int l" and lt: "913 < E" by (auto simp: E_def)
  have P0: "P \<noteq> 0" using Plow by auto
  from round_double_value(2)[OF r[folded P_def] E] lt P0
  have v: "real m' * 2 powi e' = real (rne P (nat (E - 913))) * 2 powi E" by simp
  from l show ?thesis
  proof
    assume l5: "l = 105"
    then have E5: "E = 965" using El by simp
    have "floorlog 2 P \<le> 105" using l5 by (simp add: l_def)
    then have "P < 2 ^ 105" by (rule floorlog_leD) simp
    then have "P < 2 ^ (52 + 53)" by simp
    then have "rne P 52 \<le> 2 ^ 53" by (rule rne_less_pow)
    then have "real (rne P 52) \<le> real (2 ^ 53)" by (simp only: of_nat_le_iff)
    then have "real (rne P 52) \<le> 2 ^ 53" by simp
    then have "real (rne P 52) * 2 powi 965 \<le> 2 ^ 53 * 2 powi 965"
      using pw_pos[of 965] by (simp only: mult_le_cancel_right_pos)
    moreover have "(2::real) powi 966 = 2 powi 965 * 2"
      using pw_add[of 965 1] by simp
    moreover have "0 < (2::real) powi 965" by (rule pw_pos)
    ultimately have "real (rne P 52) * 2 powi 965 \<le> 5030569068109112 * 2 powi 966"
      by (simp only:) (simp add: algebra_simps)
    with v E5 show ?thesis by simp
  next
    assume l6: "l = 106"
    then have E6: "E = 966" using El by simp
    have "P + 2 ^ (53 - 1) < (5030569068109112 + 1) * 2 ^ 53" using Pmax by simp
    then have "rne P 53 \<le> 5030569068109112" by (intro rne_le_half_up) simp_all
    then have "real (rne P 53) \<le> real 5030569068109112" by (simp only: of_nat_le_iff)
    then have "real (rne P 53) \<le> 5030569068109112" by simp
    then have "real (rne P 53) * 2 powi 966 \<le> 5030569068109112 * 2 powi 966"
      using pw_pos[of 966] by (simp only: mult_le_cancel_right_pos)
    with v E6 show ?thesis by simp
  qed
qed

lemma round_trip_arith:
  fixes a vy vz \<eta> :: real
  assumes "\<bar>vy - a * (5030569068109113 / 2 ^ 58)\<bar> \<le> a * (5030569068109113 / 2 ^ 58) / 2 ^ 53 + \<eta>"
    and "\<bar>vz - vy * (8063664102031864 / 2 ^ 47)\<bar> \<le> vy * (8063664102031864 / 2 ^ 47) / 2 ^ 53 + \<eta>"
    and "0 \<le> a" and "0 \<le> \<eta>"
  shows "\<bar>vz - a\<bar> \<le> a / 2 ^ 51 + 64 * \<eta>"
  using assms by simp

lemma degrees_small_arith:
  fixes a vy B \<eta> :: real
  assumes "\<bar>vy - a * (5030569068109113 / 2 ^ 58)\<bar> \<le> a * (5030569068109113 / 2 ^ 58) / 2 ^ 53 + \<eta>"
    and "0 \<le> a" and "a \<le> 2 ^ 52 * B" and "0 \<le> \<eta>" and "\<eta> \<le> B"
  shows "vy * (8063664102031864 / 2 ^ 47) \<le> (2 ^ 53 - 1) * B"
  using assms by simp

lemma degrees_radians_close:
  assumes m: "m < 2 ^ 53" and e: "e \<le> 971"
  shows "\<exists>m' e'. degrees_double (radians_double (Finite s m e)) = Finite s m' e'
           \<and> \<bar>real m' * 2 powi e' - real m * 2 powi e\<bar>
               \<le> real m * 2 powi e / 2 ^ 51 + 2 powi (- 1069)"
proof -
  define a where "a = real m * 2 powi e"
  define B :: real where "B = 2 powi 971"
  define \<eta> :: real where "\<eta> = 2 powi (- 1075)"
  have a0: "0 \<le> a" using pw_pos[of e] by (simp add: a_def)
  have B0: "0 < B" unfolding B_def by (rule pw_pos)
  have \<eta>0: "0 \<le> \<eta>" using pw_pos[of "- 1075"] by (simp add: \<eta>_def)
  have \<eta>B: "\<eta> \<le> B" unfolding \<eta>_def B_def by (rule pw_mono) simp
  have "real m \<le> real (2 ^ 53 - 1)" using m by simp
  then have mr: "real m \<le> 2 ^ 53 - 1" by simp
  have eB: "2 powi e \<le> B" unfolding B_def using e by (rule pw_mono)
  have "a \<le> (2 ^ 53 - 1) * 2 powi e"
    unfolding a_def using mr pw_pos[of e] by (simp only: mult_le_cancel_right_pos)
  also have "\<dots> \<le> (2 ^ 53 - 1) * B"
    using eB by (simp add: mult_left_mono)
  finally have amax: "a \<le> (2 ^ 53 - 1) * B" .
  \<comment> \<open>the first rounding\<close>
  have ex1: "real (m * 5030569068109113) * 2 powi (e - 58) = a * (5030569068109113 / 2 ^ 58)"
    unfolding a_def by (rule radians_exact_value)
  have "a * (5030569068109113 / 2 ^ 58) \<le> a" using a0 by simp
  with amax have "real (m * 5030569068109113) * 2 powi (e - 58) \<le> (2 ^ 53 - 1) * 2 powi 971"
    unfolding ex1 B_def by linarith
  from round_double_finite[OF this, of s] obtain my ey where
    y: "round_double s (m * 5030569068109113) (e - 58) = Finite s my ey" by blast
  define vy where "vy = real my * 2 powi ey"
  have vy0: "0 \<le> vy" using pw_pos[of ey] by (simp add: vy_def)
  from round_double_error[OF y]
  have h1: "\<bar>vy - a * (5030569068109113 / 2 ^ 58)\<bar>
              \<le> a * (5030569068109113 / 2 ^ 58) / 2 ^ 53 + \<eta>"
    unfolding ex1 vy_def \<eta>_def .
  \<comment> \<open>the second rounding does not overflow\<close>
  have ex2: "real (my * 8063664102031864) * 2 powi (ey - 47) = vy * (8063664102031864 / 2 ^ 47)"
    unfolding vy_def by (rule degrees_exact_value)
  have fin: "vy * (8063664102031864 / 2 ^ 47) \<le> (2 ^ 53 - 1) * B"
  proof (cases "a \<le> 2 ^ 52 * B")
    case True
    from h1 a0 True \<eta>0 \<eta>B show ?thesis by (rule degrees_small_arith)
  next
    case False
    have e971: "e = 971"
    proof (rule ccontr)
      assume "e \<noteq> 971"
      with e have "e \<le> 970" by simp
      then have "2 powi e \<le> (2::real) powi 970" by (rule pw_mono)
      moreover have "(2::real) powi 970 = B / 2"
        unfolding B_def using pw_half[of 971] by simp
      ultimately have "2 powi e \<le> B / 2" by simp
      then have "(2 ^ 53 - 1) * 2 powi e \<le> (2 ^ 53 - 1) * (B / 2)"
        by (simp add: mult_left_mono)
      moreover have "a \<le> (2 ^ 53 - 1) * 2 powi e"
        unfolding a_def using mr pw_pos[of e] by (simp only: mult_le_cancel_right_pos)
      ultimately have "a \<le> 2 ^ 52 * B" using B0 by simp
      with False show False ..
    qed
    have m52: "2 ^ 52 \<le> m"
    proof (rule ccontr)
      assume "\<not> 2 ^ 52 \<le> m"
      then have "m \<le> 2 ^ 52" by simp
      then have "real m \<le> real (2 ^ 52)" by (simp only: of_nat_le_iff)
      then have "real m \<le> 2 ^ 52" by simp
      then have "real m * B \<le> 2 ^ 52 * B"
        using B0 by (simp only: mult_le_cancel_right_pos)
      with False show False by (simp add: a_def e971 B_def)
    qed
    from y have "round_double s (m * 5030569068109113) 913 = Finite s my ey"
      by (simp add: e971)
    from radians_top_binade[OF m52 m this]
    have "vy \<le> 5030569068109112 * 2 powi 966" by (simp add: vy_def)
    moreover have "B = 2 powi 966 * 2 ^ 5"
      unfolding B_def using pw_add[of 966 5] by simp
    moreover have "0 < (2::real) powi 966" by (rule pw_pos)
    ultimately show ?thesis by simp
  qed
  then have "real (my * 8063664102031864) * 2 powi (ey - 47) \<le> (2 ^ 53 - 1) * 2 powi 971"
    unfolding ex2 B_def .
  from round_double_finite[OF this, of s] obtain mz ez where
    z: "round_double s (my * 8063664102031864) (ey - 47) = Finite s mz ez" by blast
  define vz where "vz = real mz * 2 powi ez"
  from round_double_error[OF z]
  have h2: "\<bar>vz - vy * (8063664102031864 / 2 ^ 47)\<bar>
              \<le> vy * (8063664102031864 / 2 ^ 47) / 2 ^ 53 + \<eta>"
    unfolding ex2 vz_def \<eta>_def .
  from h1 h2 a0 \<eta>0 have "\<bar>vz - a\<bar> \<le> a / 2 ^ 51 + 64 * \<eta>"
    by (rule round_trip_arith)
  moreover have "64 * \<eta> = 2 powi (- 1069)"
    unfolding \<eta>_def using pw_add[of "- 1075" 6] by simp
  moreover have "degrees_double (radians_double (Finite s m e)) = Finite s mz ez"
    by (simp add: radians_double_Finite y degrees_double_Finite z)
  ultimately show ?thesis unfolding vz_def a_def by auto
qed

subsection \<open>The numbers of the examples\<close>

lemma arctan_series_bounds:
  fixes x :: real
  assumes "0 < x" and "x \<le> 1"
  shows "(\<Sum>i<2 * n. (- 1) ^ i * (1 / real (i * 2 + 1) * x ^ (i * 2 + 1))) \<le> arctan x"
    and "arctan x \<le> (\<Sum>i<2 * n + 1. (- 1) ^ i * (1 / real (i * 2 + 1) * x ^ (i * 2 + 1)))"
proof -
  have ax: "\<bar>x\<bar> \<le> 1" using assms by simp
  let ?a = "\<lambda>n. 1 / real (n * 2 + 1) * x ^ (n * 2 + 1)"
  have pos: "0 < ?a 0" using assms by simp
  from summable_Leibniz(2)[OF zeroseq_arctan_series[OF ax] monoseq_arctan_series[OF ax]] pos
  have "(\<Sum>i. (- 1) ^ i * ?a i) \<in> {\<Sum>i<2 * n. (- 1) ^ i * ?a i .. \<Sum>i<2 * n + 1. (- 1) ^ i * ?a i}"
    by blast
  then show "(\<Sum>i<2 * n. (- 1) ^ i * ?a i) \<le> arctan x"
    and "arctan x \<le> (\<Sum>i<2 * n + 1. (- 1) ^ i * ?a i)"
    unfolding arctan_series[OF ax] by simp_all
qed

lemma round_double_is_double: "is_double (round_double s m e)"
proof (cases "m = 0")
  case True
  then show ?thesis by (simp add: round_double_zero is_double_def)
next
  case False
  then have m: "0 < m" by simp
  define l where "l = floorlog 2 m"
  define E where "E = max (e + int l - 53) (- 1074)"
  have E: "E = max (e + int (floorlog 2 m) - 53) (- 1074)" by (simp add: E_def l_def)
  have Elow: "- 1074 \<le> E" by (simp add: E_def)
  have lpos: "0 < l" using floorlog2_pos[OF m] by (simp add: l_def)
  have ml: "2 ^ (l - 1) \<le> m" using floorlog2_bounds[OF m] by (simp add: l_def)
  show ?thesis
  proof (cases "E \<le> e")
    case True
    note ex = round_double_exact(1)[OF m E True, of s] round_double_exact(2)[OF m E True]
    have "2 ^ 52 \<le> m * 2 ^ nat (e - E)" if "E \<noteq> - 1074"
    proof -
      from that have "E = e + int l - 53" by (simp add: E_def max_def split: if_splits)
      then have "(l - 1) + nat (e - E) = 52" using lpos True by linarith
      then have "(2::nat) ^ 52 = 2 ^ (l - 1) * 2 ^ nat (e - E)"
        by (simp only: power_add[symmetric])
      also have "\<dots> \<le> m * 2 ^ nat (e - E)" using ml by simp
      finally show ?thesis .
    qed
    then have "E = - 1074" if "m * 2 ^ nat (e - E) < 2 ^ 52"
      using that by (cases "E = - 1074") simp_all
    then show ?thesis
      using ex Elow by (simp add: is_double_def)
  next
    case False
    then have lt: "e < E" by simp
    note rn = round_double_rounded(1)[OF m E lt, of s] round_double_rounded(2)[OF m E lt]
    have "2 ^ 52 \<le> rne m (nat (E - e))" if "E \<noteq> - 1074"
    proof -
      from that have "E = e + int l - 53" by (simp add: E_def max_def split: if_splits)
      then have "nat (E - e) + 52 = l - 1" using lpos lt by linarith
      with ml have "2 ^ (nat (E - e) + 52) \<le> m" by simp
      then show ?thesis by (rule rne_ge_pow)
    qed
    then have "E = - 1074" if "rne m (nat (E - e)) < 2 ^ 52"
      using that by (cases "E = - 1074") simp_all
    then show ?thesis
      using rn Elow by (simp add: is_double_def)
  qed
qed

lemma radians_double_special:
  "radians_double (Infinity s) = Infinity s" "radians_double NaN = NaN"
  by (simp_all add: radians_double_def degToRad_def)

lemma degrees_double_special:
  "degrees_double (Infinity s) = Infinity s" "degrees_double NaN = NaN"
  by (simp_all add: degrees_double_def radToDeg_def)

lemma radians_double_is_double: "is_double (radians_double x)"
proof (cases x)
  case (Finite s m e)
  then show ?thesis by (simp add: radians_double_Finite round_double_is_double)
next
  case (Infinity s)
  then show ?thesis by (simp add: radians_double_special is_double_def)
next
  case NaN
  then show ?thesis by (simp add: radians_double_special is_double_def)
qed

lemma degrees_double_is_double: "is_double (degrees_double x)"
proof (cases x)
  case (Finite s m e)
  then show ?thesis by (simp add: degrees_double_Finite round_double_is_double)
next
  case (Infinity s)
  then show ?thesis by (simp add: degrees_double_special is_double_def)
next
  case NaN
  then show ?thesis by (simp add: degrees_double_special is_double_def)
qed

text \<open>Bounds of \<open>\<pi>\<close> from Machin's formula and the series of the arc tangent.\<close>

lemma pi_bounds: "3.141592653589793238 \<le> pi" "pi \<le> 3.141592653589793239"
proof -
  let ?S = "\<lambda>x n. (\<Sum>i<n. (- 1) ^ i * (1 / real (i * 2 + 1) * x ^ (i * 2 + 1)))"
  have a1: "?S (1 / 5) (2 * 7) \<le> arctan (1 / 5)"
    by (rule arctan_series_bounds(1)) simp_all
  have a2: "arctan (1 / 5) \<le> ?S (1 / 5) (2 * 7 + 1)"
    by (rule arctan_series_bounds(2)) simp_all
  have b1: "?S (1 / 239) (2 * 2) \<le> arctan (1 / 239)"
    by (rule arctan_series_bounds(1)) simp_all
  have b2: "arctan (1 / 239) \<le> ?S (1 / 239) (2 * 2 + 1)"
    by (rule arctan_series_bounds(2)) simp_all
  have lo: "3.141592653589793238 \<le> 16 * ?S (1 / 5) (2 * 7) - 4 * ?S (1 / 239) (2 * 2 + 1)"
    by (simp add: eval_nat_numeral)
  have hi: "16 * ?S (1 / 5) (2 * 7 + 1) - 4 * ?S (1 / 239) (2 * 2) \<le> 3.141592653589793239"
    by (simp add: eval_nat_numeral)
  have p: "pi = 16 * arctan (1 / 5) - 4 * arctan (1 / 239)"
    using machin by simp
  show "3.141592653589793238 \<le> pi" using lo a1 b2 unfolding p by linarith
  show "pi \<le> 3.141592653589793239" using hi a2 b1 unfolding p by linarith
qed

lemma float_lit_45: "float_lit 45 = Finite False 6333186975989760 (- 47)"
proof -
  have fl: "floorlog 2 45 = 6" by (simp add: compute_floorlog)
  show ?thesis unfolding float_lit_def round_double_def by (simp add: fl)
qed

lemma float_lit_m30: "float_lit (- 30) = Finite True 8444249301319680 (- 48)"
proof -
  have fl: "floorlog 2 30 = 5" by (simp add: compute_floorlog)
  show ?thesis unfolding float_lit_def round_double_def by (simp add: fl)
qed

lemma float_lit_90: "float_lit 90 = Finite False 6333186975989760 (- 46)"
proof -
  have fl: "floorlog 2 90 = 7" by (simp add: compute_floorlog)
  show ?thesis unfolding float_lit_def round_double_def by (simp add: fl)
qed

lemma radians_45: "radians_double (float_lit 45) = Finite False 7074237752028440 (- 53)"
proof -
  have fl: "floorlog 2 31859534503965578371254850682880 = 105"
    by (simp add: compute_floorlog)
  have r: "rne 31859534503965578371254850682880 52 = 7074237752028440"
    by (simp add: rne_def Let_def)
  show ?thesis
    unfolding float_lit_45 radians_double_Finite round_double_def by (simp add: fl r)
qed

lemma radians_m30: "radians_double (float_lit (- 30)) = Finite True 4716158501352293 (- 53)"
proof -
  have fl: "floorlog 2 42479379338620771161673134243840 = 106"
    by (simp add: compute_floorlog)
  have r: "rne 42479379338620771161673134243840 53 = 4716158501352293"
    by (simp add: rne_def Let_def)
  show ?thesis
    unfolding float_lit_m30 radians_double_Finite round_double_def by (simp add: fl r)
qed

lemma radians_90: "radians_double (float_lit 90) = Finite False 7074237752028440 (- 52)"
proof -
  have fl: "floorlog 2 31859534503965578371254850682880 = 105"
    by (simp add: compute_floorlog)
  have r: "rne 31859534503965578371254850682880 52 = 7074237752028440"
    by (simp add: rne_def Let_def)
  show ?thesis
    unfolding float_lit_90 radians_double_Finite round_double_def by (simp add: fl r)
qed

lemma pw_m52: "(2::real) powi (- 52) = 1 / 2 ^ 52"
  by (simp add: power_int_def power_one_over)

lemma radians_45_close: "\<bar>valof (radians_double (float_lit 45)) - pi / 4\<bar> \<le> 1 / 10 ^ 16"
  unfolding radians_45 valof_def using pi_bounds by (simp add: pw_m53) 

lemma radians_m30_close: "\<bar>valof (radians_double (float_lit (- 30))) + pi / 6\<bar> \<le> 1 / 10 ^ 16"
  unfolding radians_m30 valof_def using pi_bounds by (simp add: pw_m53)

lemma radians_90_close: "\<bar>valof (radians_double (float_lit 90)) - pi / 2\<bar> \<le> 1 / 10 ^ 16"
  unfolding radians_90 valof_def using pi_bounds by (simp add: pw_m52)

text \<open>The degrees of the radians of \<^verbatim>\<open>-30.0\<close> are \<^verbatim>\<open>-29.999999999999996\<close>.\<close>

lemma round_trip_m30:
  "degrees_double (radians_double (float_lit (- 30))) = Finite True 8444249301319679 (- 48)"
proof -
  have fl: "floorlog 2 38029518006846879193972975464152 = 105"
    by (simp add: compute_floorlog)
  have r: "rne 38029518006846879193972975464152 52 = 8444249301319679"
    by (simp add: rne_def Let_def)
  show ?thesis
    unfolding radians_m30 degrees_double_Finite round_double_def by (simp add: fl r)
qed

text \<open>The two constants are the floats nearest to \<open>\<pi>/180\<close> and to \<open>180/\<pi>\<close>.\<close>

lemma degToRad_nearest: "\<bar>valof degToRad - pi / 180\<bar> \<le> 1 / 2 ^ 59"
  unfolding degToRad_def valof_def using pi_bounds by (simp add: pw_m58)

lemma radToDeg_nearest: "\<bar>valof radToDeg * pi - 180\<bar> \<le> pi / 2 ^ 48"
  unfolding radToDeg_def valof_def using pi_bounds by (simp add: pw_m47)

section \<open>The total exposure time\<close>

text \<open>
  Claim C2. Reading \<^verbatim>\<open>exp_time\<close> after the setter has stored \<open>v\<close> gives \<open>v\<close>, unless
  \<open>v\<close> is \<^verbatim>\<open>None\<close>, which gives back the sum of \<^verbatim>\<open>exp_times\<close>; a stored zero (int
  or float) is returned as the override. In general the override attribute decides:
  a value other than \<^verbatim>\<open>None\<close> is the result, \<^verbatim>\<open>None\<close> makes the result
  \<^verbatim>\<open>sum(self.exp_times)\<close>, the additions of the items from the left starting from
  \<^verbatim>\<open>0\<close>, which for an empty list is Python's \<^verbatim>\<open>0\<close>: the int that denotes the same
  number as the float \<^verbatim>\<open>0.0\<close> of the specification and is \<^verbatim>\<open>==\<close> to it. The
  constructor leaves the override \<^verbatim>\<open>None\<close>.
\<close>

theorem exp_time_override_or_sum:
  "exp_time (M :: ('f::zero) mathlib) h (exp_time_setter v t) =
     (if v = PNone then bindE (getattr_inst t ''exp_times'') (py_sum M h) else Inr v)
   \<and> exp_time M h (exp_time_setter (PInt 0) t) = Inr (PInt 0)
   \<and> exp_time M h (exp_time_setter (PFloat 0) t) = Inr (PFloat 0)
   \<and> (\<forall>x. map_of t ''_exp_time'' = Some x \<longrightarrow> x \<noteq> PNone \<longrightarrow> exp_time M h t = Inr x)
   \<and> (map_of t ''_exp_time'' = Some PNone \<longrightarrow>
        exp_time M h t = bindE (getattr_inst t ''exp_times'') (py_sum M h))
   \<and> (a < length h \<longrightarrow> h ! a = PList xs \<longrightarrow> py_sum M h (PRef a) = sum_loop M (PInt 0) xs)
   \<and> sum_loop M (PInt 0) [] = Inr (PInt 0)
   \<and> (\<forall>val. val 0 = 0 \<longrightarrow> num_value val (PInt 0 :: 'f pyval) = num_value val (PFloat 0))
   \<and> (\<forall>t0 h0. Target_init args h = Inr (t0, h0) \<longrightarrow> map_of t0 ''_exp_time'' = Some PNone)"
proof -
  have set_get: "exp_time M h (exp_time_setter v t) =
     (if v = PNone then bindE (getattr_inst t ''exp_times'') (py_sum M h) else Inr v)" for v
    by (simp add: exp_time_def exp_time_setter_def getattr_update_same getattr_update_other)
  have by_default: "map_of t0 ''_exp_time'' = Some PNone"
    if "Target_init args h = Inr (t0, h0)" for t0 h0
    using that
    by (cases "case arg_exp_times args of None \<Rightarrow> Inr [] | Some v \<Rightarrow> py_iter h v")
       (auto simp: Target_init_def new_obj_def init_fields_def)
  show ?thesis
    using set_get by_default
    by (simp add: exp_time_def getattr_inst_def py_sum_def py_iter_list num_value_def)
qed

text \<open>
  For instance, with the exposure times \<^verbatim>\<open>[15.0, 15.0]\<close>: unset, the exposure time is
  \<^verbatim>\<open>30.0\<close>; with the override \<^verbatim>\<open>0.0\<close> it is \<^verbatim>\<open>0.0\<close>; and unset with an empty
  list it is \<^verbatim>\<open>0\<close>.
\<close>

theorem exp_time_override_or_sum_witness:
  "exp_time example_math [PList [PFloat 15, PFloat 15]]
     [(''exp_times'', PRef 0), (''_exp_time'', PNone)] = Inr (PFloat 30)
   \<and> exp_time example_math [PList [PFloat 15, PFloat 15]]
     [(''exp_times'', PRef 0), (''_exp_time'', PFloat 0)] = Inr (PFloat 0)
   \<and> exp_time example_math [PList []]
     [(''exp_times'', PRef 0), (''_exp_time'', PNone)] = Inr (PInt 0)
   \<and> num_value of_rat (PInt 0 :: rat pyval) = num_value of_rat (PFloat 0)"
proof -
  let ?h = "[PList [PFloat 15, PFloat 15]] :: rat heap"
  let ?unset = "[(''exp_times'', PRef 0), (''_exp_time'', PNone)] :: rat target"
  let ?zero = "[(''exp_times'', PRef 0), (''_exp_time'', PFloat 0)] :: rat target"
  note i1 = exp_time_override_or_sum [of example_math ?h PNone ?unset 0 "[PFloat 15, PFloat 15]"
      no_args]
  note i2 = exp_time_override_or_sum [of example_math ?h PNone ?zero 0 "[PFloat 15, PFloat 15]"
      no_args]
  note i3 = exp_time_override_or_sum [of example_math "[PList []]" PNone ?unset 0 "[]" no_args]
  have one: "exp_time example_math ?h ?unset = Inr (PFloat 30)"
    using i1[THEN conjunct2, THEN conjunct2, THEN conjunct2, THEN conjunct2, THEN conjunct1]
      i1[THEN conjunct2, THEN conjunct2, THEN conjunct2, THEN conjunct2, THEN conjunct2, THEN conjunct1]
    by (simp add: getattr_inst_def num_add_def as_int_def int_to_float_def example_math_def)
  have two: "exp_time example_math ?h ?zero = Inr (PFloat 0)"
    using i2[THEN conjunct2, THEN conjunct2, THEN conjunct2, THEN conjunct1]
    by simp
  have three: "exp_time example_math [PList []] ?unset = Inr (PInt 0)"
    using i3[THEN conjunct2, THEN conjunct2, THEN conjunct2, THEN conjunct2, THEN conjunct1]
      i3[THEN conjunct2, THEN conjunct2, THEN conjunct2, THEN conjunct2, THEN conjunct2, THEN conjunct1]
    by (simp add: getattr_inst_def)
  have four: "num_value of_rat (PInt 0 :: rat pyval) = num_value of_rat (PFloat 0)"
    using i1[THEN conjunct2, THEN conjunct2, THEN conjunct2, THEN conjunct2, THEN conjunct2, THEN conjunct2, THEN conjunct2, THEN conjunct1]
    by simp
  from one two three four show ?thesis by simp
qed

section \<open>Copying the driver state\<close>

text \<open>
  Claim C5. For a source \<open>a\<close> that has the seven driver attributes,
  \<^verbatim>\<open>b.copy_driver_state(a)\<close> returns normally; afterwards each of \<^verbatim>\<open>alt_rad\<close>,
  \<^verbatim>\<open>az_rad\<close>, \<^verbatim>\<open>rot_rad\<close>, \<^verbatim>\<open>telalt_rad\<close>, \<^verbatim>\<open>telaz_rad\<close>, \<^verbatim>\<open>telrot_rad\<close> and
  \<^verbatim>\<open>ang_rad\<close> of \<open>b\<close> is that of \<open>a\<close>, and every attribute of \<open>b\<close> other than these
  seven is as before: \<^verbatim>\<open>targetid\<close>, \<^verbatim>\<open>fieldid\<close>, \<^verbatim>\<open>filter\<close>, \<^verbatim>\<open>ra_rad\<close>,
  \<^verbatim>\<open>dec_rad\<close>, \<^verbatim>\<open>num_exp\<close>, \<^verbatim>\<open>exp_times\<close>, the override \<^verbatim>\<open>_exp_time\<close>, \<^verbatim>\<open>time\<close>,
  \<^verbatim>\<open>airmass\<close>, \<^verbatim>\<open>sky_brightness\<close>, \<^verbatim>\<open>cloud\<close>, \<^verbatim>\<open>seeing\<close>, \<^verbatim>\<open>slewtime\<close>,
  \<^verbatim>\<open>note\<close>, and any attribute of another name. The attributes of \<open>b\<close> afterwards are
  those it had and the seven. The call hands back only the destination, so a source
  that is another object is not touched; when source and destination are one object
  the call leaves it as it is.
\<close>

theorem copy_driver_state_frame:
  assumes "map_of a ''alt_rad'' \<noteq> None" and "map_of a ''az_rad'' \<noteq> None"
    and "map_of a ''rot_rad'' \<noteq> None" and "map_of a ''telalt_rad'' \<noteq> None"
    and "map_of a ''telaz_rad'' \<noteq> None" and "map_of a ''telrot_rad'' \<noteq> None"
    and "map_of a ''ang_rad'' \<noteq> None"
  shows "\<exists>b'. copy_driver_state b a = Inr b'
           \<and> map_of b' ''alt_rad'' = map_of a ''alt_rad''
           \<and> map_of b' ''az_rad'' = map_of a ''az_rad''
           \<and> map_of b' ''rot_rad'' = map_of a ''rot_rad''
           \<and> map_of b' ''telalt_rad'' = map_of a ''telalt_rad''
           \<and> map_of b' ''telaz_rad'' = map_of a ''telaz_rad''
           \<and> map_of b' ''telrot_rad'' = map_of a ''telrot_rad''
           \<and> map_of b' ''ang_rad'' = map_of a ''ang_rad''
           \<and> (\<forall>k. k \<notin> {''alt_rad'', ''az_rad'', ''rot_rad'', ''telalt_rad'', ''telaz_rad'',
                        ''telrot_rad'', ''ang_rad''} \<longrightarrow> map_of b' k = map_of b k)
           \<and> map_of b' ''targetid'' = map_of b ''targetid''
           \<and> map_of b' ''fieldid'' = map_of b ''fieldid''
           \<and> map_of b' ''filter'' = map_of b ''filter''
           \<and> map_of b' ''ra_rad'' = map_of b ''ra_rad''
           \<and> map_of b' ''dec_rad'' = map_of b ''dec_rad''
           \<and> map_of b' ''num_exp'' = map_of b ''num_exp''
           \<and> map_of b' ''exp_times'' = map_of b ''exp_times''
           \<and> map_of b' ''_exp_time'' = map_of b ''_exp_time''
           \<and> map_of b' ''time'' = map_of b ''time''
           \<and> map_of b' ''airmass'' = map_of b ''airmass''
           \<and> map_of b' ''sky_brightness'' = map_of b ''sky_brightness''
           \<and> map_of b' ''cloud'' = map_of b ''cloud''
           \<and> map_of b' ''seeing'' = map_of b ''seeing''
           \<and> map_of b' ''slewtime'' = map_of b ''slewtime''
           \<and> map_of b' ''note'' = map_of b ''note''
           \<and> set (map fst b') = set (map fst b) \<union> {''alt_rad'', ''az_rad'', ''rot_rad'',
                 ''telalt_rad'', ''telaz_rad'', ''telrot_rad'', ''ang_rad''}
           \<and> copy_driver_state_same a = Inr a"
proof -
  have ds: "set driver_state = {''alt_rad'', ''az_rad'', ''rot_rad'', ''telalt_rad'', ''telaz_rad'',
                        ''telrot_rad'', ''ang_rad''}"
    by (simp add: driver_state_def)
  have pres: "\<forall>k\<in>set driver_state. map_of a k \<noteq> None"
    unfolding ds using assms by blast
  from copy_attrs_present[OF pres, of b] obtain b' where
    b': "copy_attrs driver_state a b = Inr b'"
        "map_of b' = (\<lambda>k. if k \<in> set driver_state then map_of a k else map_of b k)"
        "set (map fst b') = set (map fst b) \<union> set driver_state"
    by blast
  have same: "copy_driver_state_same a = Inr a"
    unfolding copy_driver_state_same_def by (rule copy_attrs_same_present[OF pres])
  have cp: "copy_driver_state b a = Inr b'"
    using b'(1) by (simp add: copy_driver_state_def)
  have m: "map_of b' k = (if k \<in> {''alt_rad'', ''az_rad'', ''rot_rad'', ''telalt_rad'', ''telaz_rad'',
                        ''telrot_rad'', ''ang_rad''} then map_of a k else map_of b k)" for k
    using b'(2) unfolding ds by simp
  have keys: "set (map fst b') = set (map fst b) \<union> {''alt_rad'', ''az_rad'', ''rot_rad'',
                 ''telalt_rad'', ''telaz_rad'', ''telrot_rad'', ''ang_rad''}"
    using b'(3) unfolding ds .
  show ?thesis
    apply (rule exI[of _ b'])
    apply (intro conjI cp same keys allI impI)
    apply (simp_all add: m)
    done
qed

text \<open>
  For instance, a destination with \<^verbatim>\<open>targetid = 9\<close>, \<^verbatim>\<open>ra_rad = 11.0\<close>,
  \<^verbatim>\<open>slewtime = 0.0\<close> and a note keeps the four and takes the seven angles of the
  source, whose \<^verbatim>\<open>slewtime\<close> is \<^verbatim>\<open>8.0\<close>.
\<close>

theorem copy_driver_state_frame_witness:
  "\<exists>b'. copy_driver_state example_dest example_source = Inr b'
      \<and> map_of b' ''alt_rad'' = Some (PFloat 1)
      \<and> map_of b' ''az_rad'' = Some (PFloat 2)
      \<and> map_of b' ''rot_rad'' = Some (PFloat 3)
      \<and> map_of b' ''telalt_rad'' = Some (PFloat 4)
      \<and> map_of b' ''telaz_rad'' = Some (PFloat 5)
      \<and> map_of b' ''telrot_rad'' = Some (PFloat 6)
      \<and> map_of b' ''ang_rad'' = Some (PFloat 7)
      \<and> map_of b' ''targetid'' = Some (PInt 9)
      \<and> map_of b' ''ra_rad'' = Some (PFloat 11)
      \<and> map_of b' ''slewtime'' = Some (PFloat 0)
      \<and> map_of b' ''note'' = Some (PStr ''n'')"
proof -
  have pres: "map_of example_source ''alt_rad'' \<noteq> None" "map_of example_source ''az_rad'' \<noteq> None"
    "map_of example_source ''rot_rad'' \<noteq> None" "map_of example_source ''telalt_rad'' \<noteq> None"
    "map_of example_source ''telaz_rad'' \<noteq> None" "map_of example_source ''telrot_rad'' \<noteq> None"
    "map_of example_source ''ang_rad'' \<noteq> None"
    by (simp_all add: example_source_def)
  from copy_driver_state_frame[OF pres, of example_dest] show ?thesis
    apply (elim exE conjE)
    subgoal for b'
      apply (rule exI[of _ b'])
      apply (simp add: example_source_def example_dest_def)
      done
    done
qed

section \<open>The degree views\<close>

lemma degree_viewI:
  assumes g: "\<And>t. getter t = bindE (getattr_inst t fld) (math_degrees M)"
    and s: "\<And>v t. setter v t = bindE (math_radians M v) (\<lambda>r. Inr (AList.update fld (PFloat r) t))"
  shows "degree_view M fld getter setter"
proof -
  have rad: "math_radians M (PFloat x) = Inr (f_radians M x)" for x
    by (simp add: math_radians_def as_double_def)
  have deg: "math_degrees M (PFloat x) = Inr (f_degrees M x)" for x
    by (simp add: math_degrees_def as_double_def)
  have rt: "\<exists>t'. setter (PFloat x) t = Inr t'
        \<and> getter t' = Inr (f_degrees M (f_radians M x))"
    for x t
    by (simp add: g s rad deg getattr_update_same)
  have frame: "(\<exists>r. math_radians M v = Inr r \<and> map_of t' fld = Some (PFloat r))
          \<and> (\<forall>k. k \<noteq> fld \<longrightarrow> map_of t' k = map_of t k)"
    if "setter v t = Inr t'" for v t t'
    using that by (cases "math_radians M v") (auto simp: s update_conv')
  have err: "math_radians M v = Inl e" if "setter v t = Inl e" for v t e
    using that by (cases "math_radians M v") (auto simp: s)
  show ?thesis
    unfolding degree_view_def
    by (intro conjI allI impI g s rt frame err)
qed

lemma degree_view_setter:
  assumes "degree_view M fld getter setter"
  shows "setter v t = bindE (math_radians M v) (\<lambda>r. Inr (AList.update fld (PFloat r) t))"
proof -
  from assms have "\<forall>v t. setter v t =
            bindE (math_radians M v) (\<lambda>r. Inr (AList.update fld (PFloat r) t))"
    unfolding degree_view_def by (elim conjE)
  then show ?thesis by (elim allE)
qed

lemma degree_view_roundtrip:
  assumes "degree_view M fld getter setter"
  shows "\<exists>t'. setter (PFloat x) t = Inr t' \<and> getter t' = Inr (f_degrees M (f_radians M x))"
proof -
  from assms have "\<forall>x t. \<exists>t'. setter (PFloat x) t = Inr t'
            \<and> getter t' = Inr (f_degrees M (f_radians M x))"
    unfolding degree_view_def by (elim conjE)
  then show ?thesis by (elim allE)
qed

lemma degree_view_frame:
  assumes "degree_view M fld getter setter" and "setter v t = Inr t'"
  shows "(\<exists>r. math_radians M v = Inr r \<and> map_of t' fld = Some (PFloat r))
          \<and> (\<forall>k. k \<noteq> fld \<longrightarrow> map_of t' k = map_of t k)"
proof -
  from assms(1) have "\<forall>v t t'. setter v t = Inr t' \<longrightarrow>
            (\<exists>r. math_radians M v = Inr r \<and> map_of t' fld = Some (PFloat r))
          \<and> (\<forall>k. k \<noteq> fld \<longrightarrow> map_of t' k = map_of t k)"
    unfolding degree_view_def by (elim conjE)
  then have "setter v t = Inr t' \<longrightarrow>
            (\<exists>r. math_radians M v = Inr r \<and> map_of t' fld = Some (PFloat r))
          \<and> (\<forall>k. k \<noteq> fld \<longrightarrow> map_of t' k = map_of t k)"
    by (elim allE)
  with assms(2) show ?thesis by (rule rev_mp)
qed

lemma degree_view_alt: "degree_view M ''alt_rad'' (alt M) (alt_setter M)"
  by (rule degree_viewI) (simp_all add: alt_def alt_setter_def)

lemma degree_view_ang: "degree_view M ''ang_rad'' (ang M) (ang_setter M)"
  by (rule degree_viewI) (simp_all add: ang_def ang_setter_def)

lemma degree_view_az: "degree_view M ''az_rad'' (az M) (az_setter M)"
  by (rule degree_viewI) (simp_all add: az_def az_setter_def)

lemma degree_view_dec: "degree_view M ''dec_rad'' (dec M) (dec_setter M)"
  by (rule degree_viewI) (simp_all add: dec_def dec_setter_def)

lemma degree_view_ra: "degree_view M ''ra_rad'' (ra M) (ra_setter M)"
  by (rule degree_viewI) (simp_all add: ra_def ra_setter_def)

lemma degree_view_rot: "degree_view M ''rot_rad'' (rot M) (rot_setter M)"
  by (rule degree_viewI) (simp_all add: rot_def rot_setter_def)

lemma degree_view_telalt: "degree_view M ''telalt_rad'' (telalt M) (telalt_setter M)"
  by (rule degree_viewI) (simp_all add: telalt_def telalt_setter_def)

lemma degree_view_telaz: "degree_view M ''telaz_rad'' (telaz M) (telaz_setter M)"
  by (rule degree_viewI) (simp_all add: telaz_def telaz_setter_def)

lemma degree_view_telrot: "degree_view M ''telrot_rad'' (telrot M) (telrot_setter M)"
  by (rule degree_viewI) (simp_all add: telrot_def telrot_setter_def)

text \<open>The degrees of the radians of a float are close to the float.\<close>

lemma close_to_round_trip:
  assumes "is_double x"
  shows "close_to x (degrees_double (radians_double x))"
proof (cases x)
  case (Finite s m e)
  with assms have "m < 2 ^ 53" and "e \<le> 971" by (simp_all add: is_double_def)
  from degrees_radians_close[OF this, of s] obtain m' e' where
    r: "degrees_double (radians_double (Finite s m e)) = Finite s m' e'"
    and b: "\<bar>real m' * 2 powi e' - real m * 2 powi e\<bar>
              \<le> real m * 2 powi e / 2 ^ 51 + 2 powi (- 1069)"
    by blast
  define a where "a = real m * 2 powi e"
  define c where "c = real m' * 2 powi e'"
  define \<eta> :: real where "\<eta> = 2 powi (- 1069)"
  have a0: "0 \<le> a" using pw_pos[of e] by (simp add: a_def)
  have b': "\<bar>c - a\<bar> \<le> a / 2 ^ 51 + \<eta>" using b unfolding a_def c_def \<eta>_def .
  have vx: "valof (Finite s m e) = (if s then - a else a)"
    by (simp add: valof_def a_def)
  have vy: "valof (Finite s m' e') = (if s then - c else c)"
    by (simp add: valof_def c_def)
  have "\<bar>valof (Finite s m' e') - valof (Finite s m e)\<bar>
          \<le> \<bar>valof (Finite s m e)\<bar> / 2 ^ 51 + \<eta>"
    unfolding vx vy using b' a0 by (cases s) (simp_all add: abs_minus_commute)
  then show ?thesis
    unfolding Finite r close_to_def \<eta>_def by simp
next
  case (Infinity s)
  then show ?thesis
    by (simp add: close_to_def radians_double_special degrees_double_special)
next
  case NaN
  then show ?thesis
    by (simp add: close_to_def radians_double_special degrees_double_special)
qed

lemma double_of_int_is_double:
  assumes "double_of_int i = Some x"
  shows "is_double x"
proof -
  from assms have "x = float_lit i"
    by (simp add: double_of_int_def split: double.splits)
  then show ?thesis by (simp add: float_lit_def round_double_is_double)
qed

lemma degree_view_round_trip:
  assumes "degree_view ieee_math fld getter setter"
  shows "round_trip getter setter"
proof -
  have f: "\<exists>t' y. setter (PFloat x) t = Inr t' \<and> getter t' = Inr y \<and> is_double y \<and> close_to x y"
    if "is_double x" for x t
  proof -
    from degree_view_roundtrip[OF assms, of x t] obtain t' where
      t': "setter (PFloat x) t = Inr t'"
          "getter t' = Inr (f_degrees ieee_math (f_radians ieee_math x))"
      by blast
    have "f_degrees ieee_math (f_radians ieee_math x) = degrees_double (radians_double x)"
      by (simp add: ieee_math_def)
    with t' close_to_round_trip[OF that] degrees_double_is_double[of "radians_double x"]
    show ?thesis by simp
  qed
  have i: "is_double x \<and> setter (PInt i) t = setter (PFloat x) t"
    if "double_of_int i = Some x" for i x t
  proof -
    have "math_radians ieee_math (PInt i) = math_radians ieee_math (PFloat x)"
      using that
      by (simp add: math_radians_def as_double_def as_int_def int_to_float_def ieee_math_def)
    then show ?thesis
      using double_of_int_is_double[OF that]
      by (simp add: degree_view_setter[OF assms])
  qed
  show ?thesis
    unfolding round_trip_def using f i by blast
qed

text \<open>
  Claim C6. Each of the nine degree properties \<^verbatim>\<open>alt\<close>, \<^verbatim>\<open>ang\<close>, \<^verbatim>\<open>az\<close>, \<^verbatim>\<open>dec\<close>,
  \<^verbatim>\<open>ra\<close>, \<^verbatim>\<open>rot\<close>, \<^verbatim>\<open>telalt\<close>, \<^verbatim>\<open>telaz\<close>, \<^verbatim>\<open>telrot\<close> is a view of the radian
  attribute of its name: the setter stores \<^verbatim>\<open>radians(x)\<close> there and changes nothing
  else, the getter returns \<^verbatim>\<open>degrees\<close> of what is stored, and writing \<open>x\<close> then
  reading gives \<^verbatim>\<open>degrees(radians(x))\<close>; this holds for any float operations. With
  the floats of the runtime, writing any float \<open>x\<close> and reading back returns a float
  close to \<open>x\<close>: of the same sign and within \<^verbatim>\<open>2**-51\<close> times the size of \<open>x\<close>, plus
  \<^verbatim>\<open>2**-1069\<close>; an infinity and the NaN come back as they are.
\<close>

theorem degree_views_radians_canonical:
  "degree_view M ''alt_rad'' (alt M) (alt_setter M)
   \<and> degree_view M ''ang_rad'' (ang M) (ang_setter M)
   \<and> degree_view M ''az_rad'' (az M) (az_setter M)
   \<and> degree_view M ''dec_rad'' (dec M) (dec_setter M)
   \<and> degree_view M ''ra_rad'' (ra M) (ra_setter M)
   \<and> degree_view M ''rot_rad'' (rot M) (rot_setter M)
   \<and> degree_view M ''telalt_rad'' (telalt M) (telalt_setter M)
   \<and> degree_view M ''telaz_rad'' (telaz M) (telaz_setter M)
   \<and> degree_view M ''telrot_rad'' (telrot M) (telrot_setter M)
   \<and> round_trip (alt ieee_math) (alt_setter ieee_math)
   \<and> round_trip (ang ieee_math) (ang_setter ieee_math)
   \<and> round_trip (az ieee_math) (az_setter ieee_math)
   \<and> round_trip (dec ieee_math) (dec_setter ieee_math)
   \<and> round_trip (ra ieee_math) (ra_setter ieee_math)
   \<and> round_trip (rot ieee_math) (rot_setter ieee_math)
   \<and> round_trip (telalt ieee_math) (telalt_setter ieee_math)
   \<and> round_trip (telaz ieee_math) (telaz_setter ieee_math)
   \<and> round_trip (telrot ieee_math) (telrot_setter ieee_math)"
  by (intro conjI degree_view_alt degree_view_ang degree_view_az degree_view_dec degree_view_ra
      degree_view_rot degree_view_telalt degree_view_telaz degree_view_telrot
      degree_view_round_trip[OF degree_view_alt] degree_view_round_trip[OF degree_view_ang]
      degree_view_round_trip[OF degree_view_az] degree_view_round_trip[OF degree_view_dec]
      degree_view_round_trip[OF degree_view_ra] degree_view_round_trip[OF degree_view_rot]
      degree_view_round_trip[OF degree_view_telalt] degree_view_round_trip[OF degree_view_telaz]
      degree_view_round_trip[OF degree_view_telrot])

text \<open>
  For instance, \<^verbatim>\<open>t.alt = -30.0\<close> changes \<^verbatim>\<open>alt_rad\<close> to \<^verbatim>\<open>radians(-30.0)\<close> and
  leaves \<^verbatim>\<open>az_rad\<close>, and \<^verbatim>\<open>t.alt\<close> is then within the tolerance of \<open>-30\<close> (it is
  \<^verbatim>\<open>-29.999999999999996\<close>, see \<open>round_trip_m30\<close>).
\<close>

theorem degree_views_radians_canonical_witness:
  "\<exists>t' y. alt_setter ieee_math (PFloat (float_lit (- 30)))
              [(''alt_rad'', PFloat 0), (''az_rad'', PFloat 0)] = Inr t'
      \<and> map_of t' ''alt_rad'' = Some (PFloat (Finite True 4716158501352293 (- 53)))
      \<and> map_of t' ''az_rad'' = Some (PFloat 0)
      \<and> alt ieee_math t' = Inr y
      \<and> is_double y
      \<and> \<bar>valof y + 30\<bar> \<le> 30 / 2 ^ 51 + 2 powi (- 1069)"
proof -
  note c = degree_views_radians_canonical[of ieee_math]
  have dv: "degree_view ieee_math ''alt_rad'' (alt ieee_math) (alt_setter ieee_math)"
    by (rule c[THEN conjunct1])
  have rt: "round_trip (alt ieee_math) (alt_setter ieee_math)"
    by (rule c[THEN conjunct2, THEN conjunct2, THEN conjunct2, THEN conjunct2, THEN conjunct2,
          THEN conjunct2, THEN conjunct2, THEN conjunct2, THEN conjunct2, THEN conjunct1])
  let ?t = "[(''alt_rad'', PFloat 0), (''az_rad'', PFloat 0)] :: double target"
  have d: "is_double (float_lit (- 30))"
    by (simp add: float_lit_def round_double_is_double)
  from rt have "\<forall>x t. is_double x \<longrightarrow>
         (\<exists>t' y. alt_setter ieee_math (PFloat x) t = Inr t' \<and> alt ieee_math t' = Inr y
            \<and> is_double y \<and> close_to x y)"
    unfolding round_trip_def by (elim conjE)
  then have "is_double (float_lit (- 30)) \<longrightarrow>
         (\<exists>t' y. alt_setter ieee_math (PFloat (float_lit (- 30))) ?t = Inr t'
            \<and> alt ieee_math t' = Inr y \<and> is_double y \<and> close_to (float_lit (- 30)) y)"
    by (elim allE)
  with d obtain t' y where
    t': "alt_setter ieee_math (PFloat (float_lit (- 30))) ?t = Inr t'"
    and y: "alt ieee_math t' = Inr y" "is_double y" "close_to (float_lit (- 30)) y"
    by blast
  from degree_view_frame[OF dv t']
  have a: "map_of t' ''alt_rad'' = Some (PFloat (Finite True 4716158501352293 (- 53)))"
    and b: "map_of t' ''az_rad'' = Some (PFloat 0)"
    by (auto simp: math_radians_def as_double_def ieee_math_def radians_m30)
  have v: "valof (float_lit (- 30)) = - 30"
    by (simp add: float_lit_m30 valof_def power_int_def power_one_over)
  from y(3) have "\<bar>valof y - valof (float_lit (- 30))\<bar>
      \<le> \<bar>valof (float_lit (- 30))\<bar> / 2 ^ 51 + 2 powi (- 1069)"
    unfolding float_lit_m30 close_to_def by simp
  then have "\<bar>valof y + 30\<bar> \<le> 30 / 2 ^ 51 + 2 powi (- 1069)"
    unfolding v by simp
  with t' a b y(1,2) show ?thesis by blast
qed

section \<open>The constructor\<close>

lemma Target_init_iter:
  "arg_exp_times a = Some v \<Longrightarrow> py_iter h v = Inr xs \<Longrightarrow>
   Target_init a h = Inr (init_fields a (PRef (length h)), h @ [PList xs])"
  by (simp add: Target_init_def new_obj_def)

lemma Target_init_omitted:
  "arg_exp_times a = None \<Longrightarrow>
   Target_init a h = Inr (init_fields a (PRef (length h)), h @ [PList []])"
  by (simp add: Target_init_def new_obj_def)

lemma Target_init_raises:
  "arg_exp_times a = Some v \<Longrightarrow> py_iter h v = Inl e \<Longrightarrow> Target_init a h = Inl e"
  by (simp add: Target_init_def)

lemma py_iter_mutate_other:
  "b \<noteq> a \<Longrightarrow> py_iter (mutate_list b ys h) (PRef a) = py_iter h (PRef a)"
  by (simp add: py_iter_def mutate_list_def)

lemma py_iter_new: "py_iter (h @ [PList xs]) (PRef (length h)) = Inr xs"
  by (simp add: py_iter_def)

text \<open>
  Claim C8. For every value passed as \<^verbatim>\<open>exp_times\<close> that can be iterated (a list
  in particular), the constructor stores a new list object holding its items: the
  attribute refers to an address that was not allocated before the call, so whatever
  is done afterwards to any object that existed before, the caller's list included,
  the items of the Target's list stay. Every argument that is omitted takes its
  default (\<^verbatim>\<open>0\<close>, \<^verbatim>\<open>0.0\<close>, the empty string, an empty list), the override is
  \<^verbatim>\<open>None\<close>, and the conditions, the driver results and the note are \<^verbatim>\<open>0.0\<close>
  and the empty string. Without arguments the constructor always returns.
\<close>

theorem init_copies_exp_times_and_defaults:
  "(\<forall>v xs. arg_exp_times a = Some v \<longrightarrow> py_iter h v = Inr xs \<longrightarrow>
      (\<exists>t h'. Target_init a h = Inr (t, h')
         \<and> map_of t ''exp_times'' = Some (PRef (length h))
         \<and> py_iter h' (PRef (length h)) = Inr xs
         \<and> (\<forall>b ys. b < length h \<longrightarrow>
               py_iter (mutate_list b ys h') (PRef (length h)) = Inr xs)))
   \<and> (\<forall>t h'. Target_init a h = Inr (t, h') \<longrightarrow>
        t = init_fields a (PRef (length h))
      \<and> (arg_targetid a = None \<longrightarrow> map_of t ''targetid'' = Some (PInt 0))
      \<and> (arg_fieldid a = None \<longrightarrow> map_of t ''fieldid'' = Some (PInt 0))
      \<and> (arg_band_filter a = None \<longrightarrow> map_of t ''filter'' = Some (PStr ''''))
      \<and> (arg_ra_rad a = None \<longrightarrow> map_of t ''ra_rad'' = Some (PFloat 0))
      \<and> (arg_dec_rad a = None \<longrightarrow> map_of t ''dec_rad'' = Some (PFloat 0))
      \<and> (arg_ang_rad a = None \<longrightarrow> map_of t ''ang_rad'' = Some (PFloat 0))
      \<and> (arg_num_exp a = None \<longrightarrow> map_of t ''num_exp'' = Some (PInt 0))
      \<and> (arg_exp_times a = None \<longrightarrow> py_iter h' (PRef (length h)) = Inr [])
      \<and> map_of t ''_exp_time'' = Some PNone
      \<and> map_of t ''time'' = Some (PFloat 0)
      \<and> map_of t ''airmass'' = Some (PFloat 0)
      \<and> map_of t ''sky_brightness'' = Some (PFloat 0)
      \<and> map_of t ''cloud'' = Some (PFloat 0)
      \<and> map_of t ''seeing'' = Some (PFloat 0)
      \<and> map_of t ''alt_rad'' = Some (PFloat 0)
      \<and> map_of t ''az_rad'' = Some (PFloat 0)
      \<and> map_of t ''rot_rad'' = Some (PFloat 0)
      \<and> map_of t ''telalt_rad'' = Some (PFloat 0)
      \<and> map_of t ''telaz_rad'' = Some (PFloat 0)
      \<and> map_of t ''telrot_rad'' = Some (PFloat 0)
      \<and> map_of t ''slewtime'' = Some (PFloat 0)
      \<and> map_of t ''note'' = Some (PStr ''''))
   \<and> (\<exists>t. Target_init no_args h = Inr (t, h @ [PList []]))"
proof (intro conjI allI impI)
  fix v xs
  assume a: "arg_exp_times a = Some v" and it: "py_iter h v = Inr xs"
  have "py_iter (mutate_list b ys (h @ [PList xs])) (PRef (length h)) = Inr xs"
    if "b < length h" for b ys
    using that by (simp add: py_iter_mutate_other py_iter_new)
  then show "\<exists>t h'. Target_init a h = Inr (t, h')
         \<and> map_of t ''exp_times'' = Some (PRef (length h))
         \<and> py_iter h' (PRef (length h)) = Inr xs
         \<and> (\<forall>b ys. b < length h \<longrightarrow>
               py_iter (mutate_list b ys h') (PRef (length h)) = Inr xs)"
    by (simp add: Target_init_iter[OF a it] init_fields_def py_iter_new)
next
  show "\<exists>t. Target_init no_args h = Inr (t, h @ [PList []])"
    by (simp add: Target_init_omitted no_args_def)
next
  fix t h'
  assume r: "Target_init a h = Inr (t, h')"
  show t: "t = init_fields a (PRef (length h))"
  proof (cases "arg_exp_times a")
    case None
    with r show ?thesis by (simp add: Target_init_omitted)
  next
    case (Some v)
    with r show ?thesis
      by (cases "py_iter h v") (simp_all add: Target_init_raises Target_init_iter)
  qed
  show "py_iter h' (PRef (length h)) = Inr []" if "arg_exp_times a = None"
    using r that by (auto simp: Target_init_omitted py_iter_new)
  show "map_of t ''targetid'' = Some (PInt 0)" if "arg_targetid a = None"
    using that by (simp add: t init_fields_def arg_or_def)
  show "map_of t ''fieldid'' = Some (PInt 0)" if "arg_fieldid a = None"
    using that by (simp add: t init_fields_def arg_or_def)
  show "map_of t ''filter'' = Some (PStr '''')" if "arg_band_filter a = None"
    using that by (simp add: t init_fields_def arg_or_def)
  show "map_of t ''ra_rad'' = Some (PFloat 0)" if "arg_ra_rad a = None"
    using that by (simp add: t init_fields_def arg_or_def)
  show "map_of t ''dec_rad'' = Some (PFloat 0)" if "arg_dec_rad a = None"
    using that by (simp add: t init_fields_def arg_or_def)
  show "map_of t ''ang_rad'' = Some (PFloat 0)" if "arg_ang_rad a = None"
    using that by (simp add: t init_fields_def arg_or_def)
  show "map_of t ''num_exp'' = Some (PInt 0)" if "arg_num_exp a = None"
    using that by (simp add: t init_fields_def arg_or_def)
  show "map_of t ''_exp_time'' = Some PNone" by (simp add: t init_fields_def)
  show "map_of t ''time'' = Some (PFloat 0)" by (simp add: t init_fields_def)
  show "map_of t ''airmass'' = Some (PFloat 0)" by (simp add: t init_fields_def)
  show "map_of t ''sky_brightness'' = Some (PFloat 0)" by (simp add: t init_fields_def)
  show "map_of t ''cloud'' = Some (PFloat 0)" by (simp add: t init_fields_def)
  show "map_of t ''seeing'' = Some (PFloat 0)" by (simp add: t init_fields_def)
  show "map_of t ''alt_rad'' = Some (PFloat 0)" by (simp add: t init_fields_def)
  show "map_of t ''az_rad'' = Some (PFloat 0)" by (simp add: t init_fields_def)
  show "map_of t ''rot_rad'' = Some (PFloat 0)" by (simp add: t init_fields_def)
  show "map_of t ''telalt_rad'' = Some (PFloat 0)" by (simp add: t init_fields_def)
  show "map_of t ''telaz_rad'' = Some (PFloat 0)" by (simp add: t init_fields_def)
  show "map_of t ''telrot_rad'' = Some (PFloat 0)" by (simp add: t init_fields_def)
  show "map_of t ''slewtime'' = Some (PFloat 0)" by (simp add: t init_fields_def)
  show "map_of t ''note'' = Some (PStr '''')" by (simp add: t init_fields_def)
qed

text \<open>
  For instance, \<^verbatim>\<open>Target(targetid=7, exp_times=l)\<close> for the list \<open>l\<close> at address 0:
  emptying \<open>l\<close> afterwards leaves the two exposure times of the Target.
\<close>

theorem init_copies_exp_times_and_defaults_witness:
  "\<exists>t h'. Target_init example_args example_heap = Inr (t, h')
      \<and> map_of t ''exp_times'' = Some (PRef 1)
      \<and> py_iter (mutate_list 0 [] h') (PRef 0) = Inr []
      \<and> py_iter (mutate_list 0 [] h') (PRef 1) = Inr [PFloat 15, PFloat 15]
      \<and> map_of t ''targetid'' = Some (PInt 7)
      \<and> map_of t ''fieldid'' = Some (PInt 0)
      \<and> map_of t ''note'' = Some (PStr [])"
proof -
  have a: "arg_exp_times example_args = Some (PRef 0)"
    by (simp add: example_args_def)
  have it: "py_iter example_heap (PRef 0) = Inr [PFloat 15, PFloat 15]"
    by (simp add: py_iter_def example_heap_def)
  note inst = init_copies_exp_times_and_defaults[of example_args example_heap]
  from inst a it obtain t h' where
    r: "Target_init example_args example_heap = Inr (t, h')"
       "map_of t ''exp_times'' = Some (PRef (length example_heap))"
       "\<forall>b ys. b < length example_heap \<longrightarrow>
          py_iter (mutate_list b ys h') (PRef (length example_heap)) = Inr [PFloat 15, PFloat 15]"
    by blast
  from inst r(1) have d: "t = init_fields example_args (PRef (length example_heap))"
    "arg_fieldid example_args = None \<longrightarrow> map_of t ''fieldid'' = Some (PInt 0)"
    "map_of t ''note'' = Some (PStr [])"
    by blast+
  have "h' = example_heap @ [PList [PFloat 15, PFloat 15]]"
    using r(1) by (simp add: Target_init_iter[OF a it])
  then have "py_iter (mutate_list 0 [] h') (PRef 0) = Inr []"
    by (simp add: py_iter_def mutate_list_def example_heap_def)
  moreover have "py_iter (mutate_list 0 [] h') (PRef 1) = Inr [PFloat 15, PFloat 15]"
    using r(3) by (simp add: example_heap_def)
  moreover have "map_of t ''targetid'' = Some (PInt 7)"
    by (simp add: d(1) init_fields_def example_args_def arg_or_def)
  moreover have "map_of t ''fieldid'' = Some (PInt 0)"
    using d(2) by (simp add: example_args_def no_args_def)
  moreover have "map_of t ''exp_times'' = Some (PRef 1)"
    using r(2) by (simp add: example_heap_def)
  ultimately show ?thesis using r(1) d(3) by simp
qed

section \<open>Construction from a topic\<close>

lemma from_topic_result:
  assumes "as_double M (topic_ra tp) = Inr x" "as_double M (topic_decl tp) = Inr y"
    "as_double M (topic_skyAngle tp) = Inr z" "py_iter h (topic_exposureTimes tp) = Inr xs"
  shows "from_topic M tp h =
     Inr (init_fields (topic_args tp (f_radians M x) (f_radians M y) (f_radians M z))
            (PRef (length h)), h @ [PList xs])"
  using assms
  by (simp add: from_topic_def math_radians_def topic_args_def Target_init_iter)

lemma example_topic_typed:
  "as_double example_math (topic_ra example_topic) = Inr 45"
  "as_double example_math (topic_decl example_topic) = Inr (- 30)"
  "as_double example_math (topic_skyAngle example_topic) = Inr 90"
  "py_iter example_heap (topic_exposureTimes example_topic) = Inr [PFloat 15, PFloat 15]"
  by (simp_all add: example_topic_def as_double_def py_iter_def example_heap_def)

lemma float_lit_values:
  "valof (float_lit 45) = 45" "valof (float_lit (- 30)) = - 30" "valof (float_lit 90) = 90"
  by (simp_all add: float_lit_45 float_lit_m30 float_lit_90 valof_def power_int_def
      power_one_over)

text \<open>
  Claim C7. For a topic whose \<^verbatim>\<open>ra\<close>, \<^verbatim>\<open>decl\<close> and \<^verbatim>\<open>skyAngle\<close> are numbers
  and whose \<^verbatim>\<open>exposureTimes\<close> is a sequence, \<^verbatim>\<open>from_topic\<close> returns a Target with
  \<^verbatim>\<open>targetid = targetId\<close>, \<^verbatim>\<open>fieldid = -1\<close>, the topic's filter,
  \<^verbatim>\<open>ra_rad = radians(ra)\<close>, \<^verbatim>\<open>dec_rad = radians(decl)\<close>,
  \<^verbatim>\<open>ang_rad = radians(skyAngle)\<close>, \<^verbatim>\<open>num_exp = numExposures\<close>, and a list
  \<^verbatim>\<open>exp_times\<close> with the items of \<^verbatim>\<open>exposureTimes\<close> in their order; this holds
  for any float operations. With the floats of the runtime, \<^verbatim>\<open>ra = 45.0\<close>,
  \<^verbatim>\<open>decl = -30.0\<close>, \<^verbatim>\<open>skyAngle = 90.0\<close> (or the ints 45, -30, 90) give
  \<^verbatim>\<open>ra_rad\<close>, \<^verbatim>\<open>dec_rad\<close> and \<^verbatim>\<open>ang_rad\<close> within \<^verbatim>\<open>1e-16\<close> of \<open>\<pi>/4\<close>,
  \<open>-\<pi>/6\<close> and \<open>\<pi>/2\<close>.
\<close>

theorem from_topic_fields:
  assumes "as_double M (topic_ra tp) = Inr x" "as_double M (topic_decl tp) = Inr y"
    "as_double M (topic_skyAngle tp) = Inr z" "py_iter h (topic_exposureTimes tp) = Inr xs"
  shows "(\<exists>t h'. from_topic M tp h = Inr (t, h')
      \<and> map_of t ''targetid'' = Some (topic_targetId tp)
      \<and> map_of t ''fieldid'' = Some (PInt (- 1))
      \<and> map_of t ''filter'' = Some (topic_filter tp)
      \<and> map_of t ''ra_rad'' = Some (PFloat (f_radians M x))
      \<and> map_of t ''dec_rad'' = Some (PFloat (f_radians M y))
      \<and> map_of t ''ang_rad'' = Some (PFloat (f_radians M z))
      \<and> map_of t ''num_exp'' = Some (topic_numExposures tp)
      \<and> (\<exists>l. map_of t ''exp_times'' = Some l \<and> py_iter h' l = Inr xs))
    \<and> (\<forall>tq hq xq.
          as_double ieee_math (topic_ra tq) = Inr (float_lit 45) \<longrightarrow>
          as_double ieee_math (topic_decl tq) = Inr (float_lit (- 30)) \<longrightarrow>
          as_double ieee_math (topic_skyAngle tq) = Inr (float_lit 90) \<longrightarrow>
          py_iter hq (topic_exposureTimes tq) = Inr xq \<longrightarrow>
          (\<exists>t h' r d a. from_topic ieee_math tq hq = Inr (t, h')
             \<and> map_of t ''fieldid'' = Some (PInt (- 1))
             \<and> map_of t ''ra_rad'' = Some (PFloat r)
             \<and> map_of t ''dec_rad'' = Some (PFloat d)
             \<and> map_of t ''ang_rad'' = Some (PFloat a)
             \<and> \<bar>valof r - pi / 4\<bar> \<le> 1 / 10 ^ 16
             \<and> \<bar>valof d + pi / 6\<bar> \<le> 1 / 10 ^ 16
             \<and> \<bar>valof a - pi / 2\<bar> \<le> 1 / 10 ^ 16))
    \<and> valof (float_lit 45) = 45 \<and> valof (float_lit (- 30)) = - 30
    \<and> valof (float_lit 90) = 90"
proof -
  have exact: "\<exists>t h'. from_topic M tp h = Inr (t, h')
      \<and> map_of t ''targetid'' = Some (topic_targetId tp)
      \<and> map_of t ''fieldid'' = Some (PInt (- 1))
      \<and> map_of t ''filter'' = Some (topic_filter tp)
      \<and> map_of t ''ra_rad'' = Some (PFloat (f_radians M x))
      \<and> map_of t ''dec_rad'' = Some (PFloat (f_radians M y))
      \<and> map_of t ''ang_rad'' = Some (PFloat (f_radians M z))
      \<and> map_of t ''num_exp'' = Some (topic_numExposures tp)
      \<and> (\<exists>l. map_of t ''exp_times'' = Some l \<and> py_iter h' l = Inr xs)"
    by (simp add: from_topic_result[OF assms] init_fields_def topic_args_def arg_or_def
        py_iter_new)
  have ieee: "\<exists>t h' r d a. from_topic ieee_math tq hq = Inr (t, h')
             \<and> map_of t ''fieldid'' = Some (PInt (- 1))
             \<and> map_of t ''ra_rad'' = Some (PFloat r)
             \<and> map_of t ''dec_rad'' = Some (PFloat d)
             \<and> map_of t ''ang_rad'' = Some (PFloat a)
             \<and> \<bar>valof r - pi / 4\<bar> \<le> 1 / 10 ^ 16
             \<and> \<bar>valof d + pi / 6\<bar> \<le> 1 / 10 ^ 16
             \<and> \<bar>valof a - pi / 2\<bar> \<le> 1 / 10 ^ 16"
    if q: "as_double ieee_math (topic_ra tq) = Inr (float_lit 45)"
      "as_double ieee_math (topic_decl tq) = Inr (float_lit (- 30))"
      "as_double ieee_math (topic_skyAngle tq) = Inr (float_lit 90)"
      "py_iter hq (topic_exposureTimes tq) = Inr xq"
    for tq :: "double topic" and hq xq
  proof -
    have r: "f_radians ieee_math = radians_double" by (simp add: ieee_math_def)
    show ?thesis
      unfolding from_topic_result[OF q] r
      using radians_45_close radians_m30_close radians_90_close
      by (simp add: init_fields_def topic_args_def arg_or_def)
  qed
  from exact ieee float_lit_values show ?thesis by blast
qed

text \<open>
  For instance, the topic with \<^verbatim>\<open>ra = 45.0\<close>, \<^verbatim>\<open>decl = -30.0\<close> and the int
  \<^verbatim>\<open>skyAngle = 90\<close>: the three angles are the floats \<^verbatim>\<open>0.7853981633974483\<close>,
  \<^verbatim>\<open>-0.5235987755982988\<close> and \<^verbatim>\<open>1.5707963267948966\<close>.
\<close>

theorem from_topic_fields_witness:
  "\<exists>t h'. from_topic ieee_math example_topic_ieee example_heap_ieee = Inr (t, h')
      \<and> map_of t ''targetid'' = Some (PInt 3)
      \<and> map_of t ''fieldid'' = Some (PInt (- 1))
      \<and> map_of t ''filter'' = Some (PStr ''r'')
      \<and> map_of t ''ra_rad'' = Some (PFloat (Finite False 7074237752028440 (- 53)))
      \<and> map_of t ''dec_rad'' = Some (PFloat (Finite True 4716158501352293 (- 53)))
      \<and> map_of t ''ang_rad'' = Some (PFloat (Finite False 7074237752028440 (- 52)))
      \<and> map_of t ''num_exp'' = Some (PInt 2)
      \<and> (\<exists>l. map_of t ''exp_times'' = Some l
            \<and> py_iter h' l = Inr [PFloat (float_lit 15), PFloat (float_lit 15)])
      \<and> \<bar>valof (Finite False 7074237752028440 (- 53)) - pi / 4\<bar> \<le> 1 / 10 ^ 16
      \<and> \<bar>valof (Finite True 4716158501352293 (- 53)) + pi / 6\<bar> \<le> 1 / 10 ^ 16
      \<and> \<bar>valof (Finite False 7074237752028440 (- 52)) - pi / 2\<bar> \<le> 1 / 10 ^ 16"
proof -
  have f90: "float_lit 90 \<noteq> Infinity s" for s by (simp add: float_lit_90)
  have typed:
    "as_double ieee_math (topic_ra example_topic_ieee) = Inr (float_lit 45)"
    "as_double ieee_math (topic_decl example_topic_ieee) = Inr (float_lit (- 30))"
    "as_double ieee_math (topic_skyAngle example_topic_ieee) = Inr (float_lit 90)"
    "py_iter example_heap_ieee (topic_exposureTimes example_topic_ieee)
       = Inr [PFloat (float_lit 15), PFloat (float_lit 15)]"
    by (simp_all add: example_topic_ieee_def as_double_def as_int_def int_to_float_def
        ieee_math_def double_of_int_def float_lit_90 py_iter_def example_heap_ieee_def)
  note c = from_topic_fields[OF typed]
  note exact = c[THEN conjunct1]
  note ieee = c[THEN conjunct2, THEN conjunct1]
  from ieee typed obtain t h' r d a where
    i: "from_topic ieee_math example_topic_ieee example_heap_ieee = Inr (t, h')"
       "map_of t ''ra_rad'' = Some (PFloat r)" "map_of t ''dec_rad'' = Some (PFloat d)"
       "map_of t ''ang_rad'' = Some (PFloat a)"
       "\<bar>valof r - pi / 4\<bar> \<le> 1 / 10 ^ 16" "\<bar>valof d + pi / 6\<bar> \<le> 1 / 10 ^ 16"
       "\<bar>valof a - pi / 2\<bar> \<le> 1 / 10 ^ 16"
    by blast
  have rad: "f_radians ieee_math = radians_double" by (simp add: ieee_math_def)
  from exact i(1) have e:
    "map_of t ''targetid'' = Some (PInt 3)" "map_of t ''fieldid'' = Some (PInt (- 1))"
    "map_of t ''filter'' = Some (PStr ''r'')"
    "map_of t ''ra_rad'' = Some (PFloat (Finite False 7074237752028440 (- 53)))"
    "map_of t ''dec_rad'' = Some (PFloat (Finite True 4716158501352293 (- 53)))"
    "map_of t ''ang_rad'' = Some (PFloat (Finite False 7074237752028440 (- 52)))"
    "map_of t ''num_exp'' = Some (PInt 2)"
    "\<exists>l. map_of t ''exp_times'' = Some l
            \<and> py_iter h' l = Inr [PFloat (float_lit 15), PFloat (float_lit 15)]"
    by (auto simp: example_topic_ieee_def rad radians_45 radians_m30 radians_90)
  from i(2-7) e(4-6) have
    "\<bar>valof (Finite False 7074237752028440 (- 53)) - pi / 4\<bar> \<le> 1 / 10 ^ 16"
    "\<bar>valof (Finite True 4716158501352293 (- 53)) + pi / 6\<bar> \<le> 1 / 10 ^ 16"
    "\<bar>valof (Finite False 7074237752028440 (- 52)) - pi / 2\<bar> \<le> 1 / 10 ^ 16"
    by simp_all
  with i(1) e show ?thesis by blast
qed

text \<open>
  Claim C10. The Target that \<^verbatim>\<open>from_topic\<close> returns has the attributes outside the
  topic at their defaults: \<^verbatim>\<open>time\<close>, \<^verbatim>\<open>airmass\<close>, \<^verbatim>\<open>sky_brightness\<close>,
  \<^verbatim>\<open>cloud\<close>, \<^verbatim>\<open>seeing\<close>, the six driver angles and \<^verbatim>\<open>slewtime\<close> are
  \<^verbatim>\<open>0.0\<close>, \<^verbatim>\<open>note\<close> is the empty string, the override is \<^verbatim>\<open>None\<close>, and so
  \<^verbatim>\<open>exp_time\<close> is the sum of the topic's exposure times.
\<close>

theorem from_topic_defaults:
  assumes "as_double M (topic_ra tp) = Inr x" "as_double M (topic_decl tp) = Inr y"
    "as_double M (topic_skyAngle tp) = Inr z" "py_iter h (topic_exposureTimes tp) = Inr xs"
  shows "\<exists>t h'. from_topic M tp h = Inr (t, h')
      \<and> map_of t ''time'' = Some (PFloat 0)
      \<and> map_of t ''airmass'' = Some (PFloat 0)
      \<and> map_of t ''sky_brightness'' = Some (PFloat 0)
      \<and> map_of t ''cloud'' = Some (PFloat 0)
      \<and> map_of t ''seeing'' = Some (PFloat 0)
      \<and> map_of t ''alt_rad'' = Some (PFloat 0)
      \<and> map_of t ''az_rad'' = Some (PFloat 0)
      \<and> map_of t ''rot_rad'' = Some (PFloat 0)
      \<and> map_of t ''telalt_rad'' = Some (PFloat 0)
      \<and> map_of t ''telaz_rad'' = Some (PFloat 0)
      \<and> map_of t ''telrot_rad'' = Some (PFloat 0)
      \<and> map_of t ''slewtime'' = Some (PFloat 0)
      \<and> map_of t ''note'' = Some (PStr [])
      \<and> map_of t ''_exp_time'' = Some PNone
      \<and> exp_time M h' t = sum_loop M (PInt 0) xs
      \<and> py_sum M h (topic_exposureTimes tp) = sum_loop M (PInt 0) xs"
  using assms(4)
  by (simp add: from_topic_result[OF assms] init_fields_def exp_time_def getattr_inst_def
      py_sum_def py_iter_new)

text \<open>For instance, the same topic, whose exposure times sum to \<^verbatim>\<open>30.0\<close>.\<close>

theorem from_topic_defaults_witness:
  "\<exists>t h'. from_topic example_math example_topic example_heap = Inr (t, h')
      \<and> map_of t ''time'' = Some (PFloat 0)
      \<and> map_of t ''telrot_rad'' = Some (PFloat 0)
      \<and> map_of t ''note'' = Some (PStr [])
      \<and> map_of t ''_exp_time'' = Some PNone
      \<and> exp_time example_math h' t = Inr (PFloat 30)"
proof -
  have "sum_loop example_math (PInt 0) [PFloat 15, PFloat 15] = Inr (PFloat 30)"
    by (simp add: num_add_def as_int_def int_to_float_def example_math_def)
  with from_topic_defaults[OF example_topic_typed] show ?thesis
    by auto
qed

section \<open>Copying an instance\<close>

lemma py_list_list:
  "py_iter h v = Inr xs \<Longrightarrow> py_list h v = Inr (PRef (length h), h @ [PList xs])"
  by (simp add: py_list_def new_obj_def)

lemma py_iter_append:
  "py_iter h v = Inr xs \<Longrightarrow> py_iter (h @ h') v = Inr xs"
  by (cases v) (auto simp: py_iter_def nth_append split: if_splits)

text \<open>
  What \<^verbatim>\<open>get_copy\<close> does for an instance that has the attributes it reads: it
  returns a new instance with the same values in the twenty attributes it assigns,
  with a new list for \<^verbatim>\<open>exp_times\<close> (at an address that did not exist before, after
  the empty list that the constructor of the new instance made), and with the override
  that the constructor sets.
\<close>

lemma get_copy_result:
  assumes before: "\<forall>k\<in>set copied_before. map_of self k \<noteq> None"
    and after: "\<forall>k\<in>set copied_after. map_of self k \<noteq> None"
    and l: "map_of self ''exp_times'' = Some v" and it: "py_iter h v = Inr xs"
  shows "\<exists>c. get_copy self h = Inr (c, h @ [PList [], PList xs])
      \<and> (\<forall>k\<in>set copied_before \<union> set copied_after. map_of c k = map_of self k)
      \<and> map_of c ''exp_times'' = Some (PRef (Suc (length h)))
      \<and> map_of c ''_exp_time'' = Some PNone"
proof -
  let ?t0 = "init_fields no_args (PRef (length h)) :: 'a target"
  let ?h0 = "h @ [PList []]"
  have init: "Target_init no_args h = Inr (?t0, ?h0)"
    by (simp add: Target_init_omitted no_args_def)
  from copy_attrs_present[OF before, of ?t0] obtain n1 where
    n1: "copy_attrs copied_before self ?t0 = Inr n1"
        "map_of n1 = (\<lambda>k. if k \<in> set copied_before then map_of self k else map_of ?t0 k)"
    by blast
  have pl: "py_list ?h0 v = Inr (PRef (Suc (length h)), h @ [PList [], PList xs])"
    using py_list_list[OF py_iter_append[OF it, of "[PList []]"]] by simp
  let ?n1' = "AList.update ''exp_times'' (PRef (Suc (length h))) n1"
  from copy_attrs_present[OF after, of ?n1'] obtain c where
    c: "copy_attrs copied_after self ?n1' = Inr c"
       "map_of c = (\<lambda>k. if k \<in> set copied_after then map_of self k else map_of ?n1' k)"
    by blast
  have "get_copy self h = Inr (c, h @ [PList [], PList xs])"
    using init n1(1) l pl c(1) by (simp add: get_copy_def getattr_inst_def)
  moreover have "\<forall>k\<in>set copied_before \<union> set copied_after. map_of c k = map_of self k"
    using c(2) n1(2) by (auto simp: update_conv' copied_before_def copied_after_def)
  moreover have "map_of c ''exp_times'' = Some (PRef (Suc (length h)))"
    using c(2) by (simp add: update_conv' copied_after_def)
  moreover have "map_of c ''_exp_time'' = Some PNone"
    using c(2) n1(2)
    by (simp add: update_conv' copied_after_def copied_before_def init_fields_def)
  ultimately show ?thesis by blast
qed

text \<open>
  Claim C1, at the instance made by \<^verbatim>\<open>t = Target(); t.exp_time = 5.0\<close>: the copy
  \<^verbatim>\<open>t.get_copy()\<close> has the override \<^verbatim>\<open>None\<close> where \<open>t\<close> has \<^verbatim>\<open>5.0\<close>, and reads
  the exposure time \<^verbatim>\<open>0\<close> (the sum of its empty list) where \<open>t\<close> reads \<^verbatim>\<open>5.0\<close>.
  The copy is not equal to \<open>t\<close> in the override state.
\<close>

theorem get_copy_drops_override:
  "Target_init no_args [] = Inr (init_fields no_args (PRef 0), [PList []] :: rat heap)
   \<and> map_of example_target ''_exp_time'' = Some (PFloat 5)
   \<and> exp_time example_math [PList []] example_target = Inr (PFloat 5)
   \<and> (\<exists>c h'. get_copy example_target [PList []] = Inr (c, h')
        \<and> map_of c ''_exp_time'' = Some PNone
        \<and> exp_time example_math h' c = Inr (PInt 0))"
proof -
  have before: "\<forall>k\<in>set copied_before. map_of example_target k \<noteq> None"
    by (simp add: copied_before_def example_target_def exp_time_setter_def update_conv'
        init_fields_def)
  have after: "\<forall>k\<in>set copied_after. map_of example_target k \<noteq> None"
    by (simp add: copied_after_def example_target_def exp_time_setter_def update_conv'
        init_fields_def)
  have l: "map_of example_target ''exp_times'' = Some (PRef 0)"
    by (simp add: example_target_def exp_time_setter_def update_conv' init_fields_def)
  have it: "py_iter [PList []] (PRef 0 :: rat pyval) = Inr []"
    by (simp add: py_iter_def)
  from get_copy_result[OF before after l it] obtain c where
    c: "get_copy example_target [PList []] = Inr (c, [PList [], PList [], PList []])"
       "map_of c ''exp_times'' = Some (PRef 2)" "map_of c ''_exp_time'' = Some PNone"
    by auto
  have "exp_time example_math [PList [], PList [], PList []] c = Inr (PInt 0)"
    using c(2,3) by (simp add: exp_time_def getattr_inst_def py_sum_def py_iter_def)
  moreover have "map_of example_target ''_exp_time'' = Some (PFloat 5)"
    by (simp add: example_target_def exp_time_setter_def update_conv')
  moreover from this have "exp_time example_math [PList []] example_target = Inr (PFloat 5)"
    by (simp add: exp_time_def getattr_inst_def)
  moreover have "Target_init no_args [] = Inr (init_fields no_args (PRef 0), [PList []] :: rat heap)"
    by (simp add: Target_init_omitted no_args_def)
  ultimately show ?thesis using c(1,3) by simp
qed

section \<open>Reading a JSON document\<close>

lemma degree_props_names: "map fst (degree_props M) = degree_names"
  by (simp add: degree_props_def degree_names_def)

lemma py_setattr_plain:
  assumes "k \<notin> set descriptor_names"
  shows "py_setattr M h k v t = Inr (AList.update k v t)"
proof -
  from assms have "k \<notin> set (map fst (degree_props M))"
    by (simp add: degree_props_names descriptor_names_def)
  then have "map_of (degree_props M) k = None"
    by (simp add: map_of_eq_None_iff)
  with assms show ?thesis
    by (simp add: py_setattr_def descriptor_names_def)
qed

lemma check_mandatory_None: "check_mandatory fs keys = None \<longleftrightarrow> set fs \<subseteq> set keys"
  by (induction fs) auto

lemma check_mandatory_Some:
  "\<not> set fs \<subseteq> set keys \<Longrightarrow>
   \<exists>pre f post. fs = pre @ f # post \<and> set pre \<subseteq> set keys \<and> f \<notin> set keys
      \<and> check_mandatory fs keys = Some (KeyError (missing_msg @ f))"
proof (induction fs)
  case Nil
  then show ?case by simp
next
  case (Cons g gs)
  show ?case
  proof (cases "g \<in> set keys")
    case False
    then have "g # gs = [] @ g # gs \<and> set [] \<subseteq> set keys \<and> g \<notin> set keys
      \<and> check_mandatory (g # gs) keys = Some (KeyError (missing_msg @ g))"
      by simp
    then show ?thesis by blast
  next
    case True
    with Cons.prems have "\<not> set gs \<subseteq> set keys" by simp
    from Cons.IH[OF this] obtain pre f post where
      p: "gs = pre @ f # post" "set pre \<subseteq> set keys" "f \<notin> set keys"
         "check_mandatory gs keys = Some (KeyError (missing_msg @ f))"
      by blast
    from p True have "g # gs = (g # pre) @ f # post \<and> set (g # pre) \<subseteq> set keys \<and> f \<notin> set keys
      \<and> check_mandatory (g # gs) keys = Some (KeyError (missing_msg @ f))"
      by simp
    then show ?thesis by blast
  qed
qed

lemma dict_of_keys: "set (map fst (dict_of d kvs)) = set (map fst d) \<union> set (map fst kvs)"
  by (induction d kvs rule: dict_of.induct) (auto simp: update_keys)

lemma dict_of_distinct: "distinct (map fst d) \<Longrightarrow> distinct (map fst (dict_of d kvs))"
  by (induction d kvs rule: dict_of.induct) (auto simp: distinct_update)

lemma json_loads_members_keys:
  "json_loads_members ms h = (kvs, h') \<Longrightarrow> map fst kvs = map fst ms"
  by (induction ms arbitrary: h kvs h') (auto split: prod.splits)

lemma json_loads_extends:
  "json_loads j h = (v, h') \<Longrightarrow> \<exists>e. h' = h @ e"
  "json_loads_list js h = (vs, h') \<Longrightarrow> \<exists>e. h' = h @ e"
  "json_loads_members ms h = (kvs, h') \<Longrightarrow> \<exists>e. h' = h @ e"
proof (induction j h and js h and ms h arbitrary: v h' and vs h' and kvs h'
    rule: json_loads_json_loads_list_json_loads_members.induct)
  case (6 js h)
  then show ?case by (fastforce simp: new_obj_def split: prod.splits)
next
  case (7 ms h)
  then show ?case by (fastforce simp: new_obj_def split: prod.splits)
next
  case (9 j js h)
  from "9.prems" obtain v1 h1 vs1 where
    s: "json_loads j h = (v1, h1)" "json_loads_list js h1 = (vs1, h')"
    by (auto split: prod.splits)
  from "9.IH"(1)[OF s(1)] obtain e1 where "h1 = h @ e1" by blast
  moreover from "9.IH"(2)[OF s(1)[symmetric] s(2)] obtain e2 where "h' = h1 @ e2" by blast
  ultimately show ?case by simp
next
  case (11 k j ms h)
  from "11.prems" obtain v1 h1 kvs1 where
    s: "json_loads j h = (v1, h1)" "json_loads_members ms h1 = (kvs1, h')"
    by (auto split: prod.splits)
  from "11.IH"(1)[OF s(1)] obtain e1 where "h1 = h @ e1" by blast
  moreover from "11.IH"(2)[OF s(1)[symmetric] s(2)] obtain e2 where "h' = h1 @ e2" by blast
  ultimately show ?case by simp
qed simp_all

lemma json_loads_object:
  "\<exists>kvs h0. json_loads_members ms h = (kvs, h0)
     \<and> json_loads (JObj ms) h = (PRef (length h0), h0 @ [PDict (dict_of [] kvs)])
     \<and> dict_items (h0 @ [PDict (dict_of [] kvs)]) (PRef (length h0)) = Inr (dict_of [] kvs)
     \<and> set (map fst (dict_of [] kvs)) = set (map fst ms)
     \<and> distinct (map fst (dict_of [] kvs))
     \<and> (\<exists>e. h0 = h @ e)"
proof -
  obtain kvs h0 where m: "json_loads_members ms h = (kvs, h0)"
    by (cases "json_loads_members ms h")
  have keys: "set (map fst (dict_of [] kvs)) = set (map fst ms)"
    using dict_of_keys[of "[]" kvs] json_loads_members_keys[OF m] by simp
  have dist: "distinct (map fst (dict_of [] kvs))"
    by (rule dict_of_distinct) simp
  show ?thesis
    using m keys dist json_loads_extends(3)[OF m]
    by (simp add: new_obj_def dict_items_def)
qed

lemma lookup_last_None: "lookup_last k kvs = None \<longleftrightarrow> k \<notin> set (map fst kvs)"
  by (induction kvs) (auto split: option.splits)

lemma map_of_dict_of:
  "map_of (dict_of d kvs) k =
     (case lookup_last k kvs of Some w \<Rightarrow> Some w | None \<Rightarrow> map_of d k)"
proof (induction d kvs rule: dict_of.induct)
  case (1 d)
  then show ?case by simp
next
  case (2 d k' v kvs)
  then show ?case
    by (auto simp: update_conv' split: option.splits)
qed

lemma loaded_extend:
  assumes "loaded h j v"
  shows "loaded (h @ e) j v"
proof -
  from assms obtain hx hy e0 where "json_loads j hx = (v, hy)" "h = hy @ e0"
    unfolding loaded_def by blast
  then have "json_loads j hx = (v, hy) \<and> h @ e = hy @ (e0 @ e)" by simp
  then show ?thesis unfolding loaded_def by blast
qed

lemma json_loads_members_loaded:
  "json_loads_members ms h = (kvs, h0) \<Longrightarrow>
   list_all2 (\<lambda>m kv. fst kv = fst m \<and> loaded h0 (snd m) (snd kv)) ms kvs"
proof (induction ms arbitrary: h kvs h0)
  case Nil
  then show ?case by simp
next
  case (Cons m ms)
  obtain k j where m: "m = (k, j)" by (cases m)
  from Cons.prems m obtain v h1 kvs1 where
    s: "json_loads j h = (v, h1)" "json_loads_members ms h1 = (kvs1, h0)" "kvs = (k, v) # kvs1"
    by (auto split: prod.splits)
  from json_loads_extends(3)[OF s(2)] obtain e where "h0 = h1 @ e" by blast
  with s(1) have "loaded h0 j v" by (auto simp: loaded_def)
  with Cons.IH[OF s(2)] s(3) m show ?case by simp
qed

lemma lookup_last_rel:
  "list_all2 (\<lambda>m kv. fst kv = fst m \<and> R (snd m) (snd kv)) ms kvs \<Longrightarrow>
   lookup_last k ms = Some j \<Longrightarrow> \<exists>v. lookup_last k kvs = Some v \<and> R j v"
proof (induction ms kvs rule: list_all2_induct)
  case Nil
  then show ?case by simp
next
  case (Cons m ms kv kvs)
  obtain k1 j1 where m: "m = (k1, j1)" by (cases m)
  obtain k2 v2 where kv: "kv = (k2, v2)" by (cases kv)
  from Cons.hyps(1) m kv have same: "k2 = k1" "R j1 v2" by simp_all
  show ?case
  proof (cases "lookup_last k ms")
    case None
    then have "k \<notin> set (map fst ms)" by (simp add: lookup_last_None)
    moreover from Cons.hyps(2) have "map fst kvs = map fst ms"
      by (induction rule: list_all2_induct) auto
    ultimately have "lookup_last k kvs = None" by (simp add: lookup_last_None)
    with None Cons.prems m kv same show ?thesis by (auto split: if_splits)
  next
    case (Some w)
    with Cons.prems m have "w = j" by simp
    with Some Cons.IH obtain v where "lookup_last k kvs = Some v" "R j v" by blast
    with kv show ?thesis by simp
  qed
qed

lemma from_json_missing:
  assumes "\<not> set mandatory_fields \<subseteq> set (map fst ms)"
  shows "\<exists>pre f post h1. mandatory_fields = pre @ f # post
     \<and> set pre \<subseteq> set (map fst ms) \<and> f \<notin> set (map fst ms)
     \<and> from_json M (JObj ms) t h = (Some (KeyError (missing_msg @ f)), t, h1)
     \<and> (\<exists>e. h1 = h @ e)"
proof -
  from json_loads_object[of ms h] obtain kvs h0 e where
    l: "json_loads (JObj ms) h = (PRef (length h0), h0 @ [PDict (dict_of [] kvs)])"
       "dict_items (h0 @ [PDict (dict_of [] kvs)]) (PRef (length h0)) = Inr (dict_of [] kvs)"
       "set (map fst (dict_of [] kvs)) = set (map fst ms)"
       "h0 = h @ e"
    by blast
  from assms l(3) have "\<not> set mandatory_fields \<subseteq> set (map fst (dict_of [] kvs))" by simp
  from check_mandatory_Some[OF this] obtain pre f post where
    c: "mandatory_fields = pre @ f # post" "set pre \<subseteq> set (map fst (dict_of [] kvs))"
       "f \<notin> set (map fst (dict_of [] kvs))"
       "check_mandatory mandatory_fields (map fst (dict_of [] kvs)) = Some (KeyError (missing_msg @ f))"
    by blast
  have "from_json M (JObj ms) t h =
      (Some (KeyError (missing_msg @ f)), t, h0 @ [PDict (dict_of [] kvs)])"
    using l(1,2) c(4) by (simp add: from_json_def)
  moreover have "\<exists>e'. h0 @ [PDict (dict_of [] kvs)] = h @ e'"
    using l(4) by simp
  ultimately show ?thesis using c(1,2,3) l(3) by blast
qed

text \<open>
  A document that is no object (an array, a number, a string, \<^verbatim>\<open>null\<close>) has no
  \<^verbatim>\<open>keys\<close>: the first test of the first loop raises and the instance is as before.
\<close>

lemma from_json_not_object:
  assumes "\<not> json_is_object j"
  shows "\<exists>h1. from_json M j t h = (Some AttributeError, t, h1)"
proof (cases j)
  case (JArr js)
  obtain vs h0 where "json_loads_list js h = (vs, h0)" by (cases "json_loads_list js h")
  with JArr show ?thesis
    by (simp add: from_json_def new_obj_def dict_items_def)
next
  case (JObj ms)
  with assms show ?thesis by (simp add: json_is_object_def)
qed (simp_all add: from_json_def dict_items_def)







lemma setattr_loop_plain:
  assumes "set (map fst kvs) \<inter> set descriptor_names = {}" and "distinct (map fst kvs)"
  shows "\<exists>t'. setattr_loop M h kvs t = (None, t')
      \<and> (\<forall>k. map_of t' k = (if k \<in> set (map fst kvs) then map_of kvs k else map_of t k))
      \<and> set (map fst t') = set (map fst t) \<union> set (map fst kvs)"
  using assms
proof (induction kvs arbitrary: t)
  case Nil
  then show ?case by simp
next
  case (Cons kv kvs)
  obtain k v where kv: "kv = (k, v)" by (cases kv)
  let ?t1 = "AList.update k v t"
  from Cons.prems kv have k: "k \<notin> set descriptor_names" "k \<notin> set (map fst kvs)" by auto
  from Cons.prems have "set (map fst kvs) \<inter> set descriptor_names = {}" "distinct (map fst kvs)"
    by auto
  from Cons.IH[OF this, of ?t1] obtain t' where
    t': "setattr_loop M h kvs ?t1 = (None, t')"
        "\<forall>k'. map_of t' k' = (if k' \<in> set (map fst kvs) then map_of kvs k' else map_of ?t1 k')"
        "set (map fst t') = set (map fst ?t1) \<union> set (map fst kvs)"
    by blast
  have "setattr_loop M h (kv # kvs) t = (None, t')"
    using t'(1) k(1) kv by (simp add: py_setattr_plain)
  moreover have "\<forall>k'. map_of t' k' =
      (if k' \<in> set (map fst (kv # kvs)) then map_of (kv # kvs) k' else map_of t k')"
    using t'(2) k(2) kv by (auto simp: update_conv')
  moreover have "set (map fst t') = set (map fst t) \<union> set (map fst (kv # kvs))"
    using t'(3) kv by (auto simp: update_keys)
  ultimately show ?case by blast
qed

lemma lookup_last_mem: "lookup_last k kvs = Some v \<Longrightarrow> (k, v) \<in> set kvs"
  by (induction kvs) (auto split: option.splits if_splits)





lemma from_json_plain:
  assumes mand: "set mandatory_fields \<subseteq> set (map fst ms)"
    and plain: "set (map fst ms) \<inter> set descriptor_names = {}"
  shows "\<exists>t' h1. from_json M (JObj ms) t h = (None, t', h1)
      \<and> (\<forall>k j. lookup_last k ms = Some j \<longrightarrow> (\<exists>v. map_of t' k = Some v \<and> loaded h1 j v))
      \<and> (\<forall>k. k \<notin> set (map fst ms) \<longrightarrow> map_of t' k = map_of t k)
      \<and> set (map fst t') = set (map fst t) \<union> set (map fst ms)
      \<and> (\<exists>e. h1 = h @ e)"
proof -
  from json_loads_object[of ms h] obtain kvs h0 e where
    l: "json_loads_members ms h = (kvs, h0)"
       "json_loads (JObj ms) h = (PRef (length h0), h0 @ [PDict (dict_of [] kvs)])"
       "dict_items (h0 @ [PDict (dict_of [] kvs)]) (PRef (length h0)) = Inr (dict_of [] kvs)"
       "set (map fst (dict_of [] kvs)) = set (map fst ms)"
       "distinct (map fst (dict_of [] kvs))" "h0 = h @ e"
    by blast
  let ?h1 = "h0 @ [PDict (dict_of [] kvs)]"
  let ?d = "dict_of [] kvs"
  have chk: "check_mandatory mandatory_fields (map fst ?d) = None"
    using mand l(4) by (simp add: check_mandatory_None)
  from plain l(4) have "set (map fst ?d) \<inter> set descriptor_names = {}" by simp
  from setattr_loop_plain[OF this l(5), of M ?h1 t] obtain t' where
    t': "setattr_loop M ?h1 ?d t = (None, t')"
        "\<forall>k. map_of t' k = (if k \<in> set (map fst ?d) then map_of ?d k else map_of t k)"
        "set (map fst t') = set (map fst t) \<union> set (map fst ?d)"
    by blast
  have r: "from_json M (JObj ms) t h = (None, t', ?h1)"
    using l(2,3) chk t'(1) by (simp add: from_json_def)
  have vals: "\<exists>v. map_of t' k = Some v \<and> loaded ?h1 j v" if "lookup_last k ms = Some j" for k j
  proof -
    from json_loads_members_loaded[OF l(1)] that obtain v where
      v: "lookup_last k kvs = Some v" "loaded h0 j v"
      using lookup_last_rel[of "loaded h0" ms kvs k j] by blast
    from v(1) have "map_of ?d k = Some v" by (simp add: map_of_dict_of)
    moreover from this have "k \<in> set (map fst ?d)"
      by (metis map_of_eq_None_iff option.distinct(1) set_map)
    ultimately have "map_of t' k = Some v" using t'(2) by simp
    with v(2) show ?thesis by (auto intro: loaded_extend)
  qed
  have other: "map_of t' k = map_of t k" if "k \<notin> set (map fst ms)" for k
    using that t'(2) l(4) by simp
  have "\<exists>e'. ?h1 = h @ e'" using l(6) by simp
  with r vals other t'(3) l(4) show ?thesis by blast
qed



text \<open>
  Claim C9. For every instance and every JSON object that lacks a mandatory key,
  \<^verbatim>\<open>from_json\<close> raises the missing-field \<^verbatim>\<open>KeyError\<close> for a mandatory key that the
  object lacks, and leaves the instance as it was: the loop over the mandatory fields
  has finished or raised before the first \<^verbatim>\<open>setattr\<close>. The instance after the call is
  the instance before it, and every object that existed before the call is unchanged
  (the call only adds the objects that \<^verbatim>\<open>json.loads\<close> builds).
\<close>

theorem from_json_missing_leaves_instance:
  assumes "\<not> set mandatory_fields \<subseteq> set (map fst ms)"
  shows "\<exists>f h1 e. from_json M (JObj ms) t h = (Some (KeyError (missing_msg @ f)), t, h1)
      \<and> f \<in> set mandatory_fields \<and> f \<notin> set (map fst ms)
      \<and> h1 = h @ e \<and> (\<forall>a<length h. h1 ! a = h ! a)"
proof -
  from from_json_missing[OF assms, of M t h] obtain pre f post h1 e where
    r: "mandatory_fields = pre @ f # post" "f \<notin> set (map fst ms)"
       "from_json M (JObj ms) t h = (Some (KeyError (missing_msg @ f)), t, h1)" "h1 = h @ e"
    by blast
  have "f \<in> set (pre @ f # post)" by simp
  with r(1) have "f \<in> set mandatory_fields" by (rule ssubst)
  moreover from r(4) have "\<forall>a<length h. h1 ! a = h ! a" by (simp add: nth_append)
  ultimately show ?thesis using r(2,3,4) by blast
qed

text \<open>For instance, an object without \<^verbatim>\<open>ra_rad\<close>, read into an instance with an override.\<close>

theorem from_json_missing_leaves_instance_witness:
  "\<exists>f h1. from_json example_math (JObj example_missing) example_target [PList []]
       = (Some (KeyError (missing_msg @ f)), example_target, h1)
     \<and> f \<in> set mandatory_fields \<and> f \<notin> set (map fst example_missing)
     \<and> h1 ! 0 = PList []"
proof -
  have "\<not> set mandatory_fields \<subseteq> set (map fst example_missing)"
    by (simp add: mandatory_fields_def example_missing_def)
  from from_json_missing_leaves_instance[OF this, of example_math example_target "[PList []]"]
  show ?thesis by auto
qed




section \<open>Writing a JSON document and reading it back\<close>

lemma dumps_extend:
  "dumps_val h m v = Inr j \<Longrightarrow> m' \<inter> {..<length h} \<subseteq> m \<Longrightarrow> dumps_val (h @ e) m' v = Inr j"
  "dumps_list h m vs = Inr js \<Longrightarrow> m' \<inter> {..<length h} \<subseteq> m \<Longrightarrow> dumps_list (h @ e) m' vs = Inr js"
  "dumps_items h m kvs = Inr ms \<Longrightarrow> m' \<inter> {..<length h} \<subseteq> m \<Longrightarrow> dumps_items (h @ e) m' kvs = Inr ms"
proof (induction h m v and h m vs and h m kvs arbitrary: j m' and js m' and ms m'
    rule: dumps_val_dumps_list_dumps_items.induct)
  case (6 h m a)
  from "6.prems"(1) have a: "a \<notin> m" "a < length h"
    by (auto split: if_splits)
  with "6.prems"(2) have a': "a \<notin> m'" by auto
  have sub: "insert a m' \<inter> {..<length h} \<subseteq> insert a m"
    using "6.prems"(2) by auto
  show ?case
  proof (cases "h ! a")
    case (PList vs)
    with "6.prems"(1) a obtain js where
      js: "dumps_list h (insert a m) vs = Inr js" "j = JArr js"
      by (auto split: sum.splits)
    from "6.IH"(1)[OF _ _ PList js(1) sub] a
    have "dumps_list (h @ e) (insert a m') vs = Inr js" by simp
    with a a' PList js(2) show ?thesis by (simp add: nth_append)
  next
    case (PDict kvs)
    with "6.prems"(1) a obtain ms where
      ms: "dumps_items h (insert a m) kvs = Inr ms" "j = JObj ms"
      by (auto split: sum.splits)
    from "6.IH"(2)[OF _ _ PDict ms(1) sub] a
    have "dumps_items (h @ e) (insert a m') kvs = Inr ms" by simp
    with a a' PDict ms(2) show ?thesis by (simp add: nth_append)
  qed
next
  case (8 h m v vs)
  from "8.prems"(1) obtain j1 js1 where
    s: "dumps_val h m v = Inr j1" "dumps_list h m vs = Inr js1" "js = j1 # js1"
    by (auto split: sum.splits)
  from "8.IH"(1)[OF s(1) "8.prems"(2)] "8.IH"(2)[OF s(1) s(2) "8.prems"(2)] s(3)
  show ?case by simp
next
  case (10 h m k v kvs)
  from "10.prems"(1) obtain j1 ms1 where
    s: "dumps_val h m v = Inr j1" "dumps_items h m kvs = Inr ms1" "ms = (k, j1) # ms1"
    by (auto split: sum.splits)
  from "10.IH"(1)[OF s(1) "10.prems"(2)] "10.IH"(2)[OF s(1) s(2) "10.prems"(2)] s(3)
  show ?case by simp
qed simp_all

lemma dumps_succeeds:
  "ranked h rk \<Longrightarrow> \<forall>b\<in>set (val_refs v). b < length h \<and> (\<forall>c\<in>m. rk b < rk c) \<Longrightarrow>
     \<exists>j. dumps_val h m v = Inr j"
  "ranked h rk \<Longrightarrow>
     \<forall>b\<in>set (concat (map val_refs vs)). b < length h \<and> (\<forall>c\<in>m. rk b < rk c) \<Longrightarrow>
     \<exists>js. dumps_list h m vs = Inr js"
  "ranked h rk \<Longrightarrow>
     \<forall>b\<in>set (concat (map (\<lambda>kv. val_refs (snd kv)) kvs)). b < length h \<and> (\<forall>c\<in>m. rk b < rk c) \<Longrightarrow>
     \<exists>ms. dumps_items h m kvs = Inr ms"
proof (induction h m v and h m vs and h m kvs
    rule: dumps_val_dumps_list_dumps_items.induct)
  case (6 h m a)
  from "6.prems"(2) have a: "a < length h" "\<forall>c\<in>m. rk a < rk c"
    by (simp_all add: val_refs_def)
  then have nm: "a \<notin> m" by auto
  from "6.prems"(1) a(1) have ch: "\<forall>b\<in>set (obj_refs (h ! a)). b < length h \<and> rk b < rk a"
    by (simp add: ranked_def)
  have below: "\<forall>b\<in>set (obj_refs (h ! a)). b < length h \<and> (\<forall>c\<in>insert a m. rk b < rk c)"
    using ch a(2) by (auto intro: less_trans)
  show ?case
  proof (cases "h ! a")
    case (PList vs)
    with below have "\<forall>b\<in>set (concat (map val_refs vs)).
        b < length h \<and> (\<forall>c\<in>insert a m. rk b < rk c)"
      by (simp add: obj_refs_def)
    from "6.IH"(1)[OF _ _ PList "6.prems"(1) this] nm a(1)
    obtain js where "dumps_list h (insert a m) vs = Inr js" by auto
    with nm a(1) PList show ?thesis by simp
  next
    case (PDict kvs)
    with below have "\<forall>b\<in>set (concat (map (\<lambda>kv. val_refs (snd kv)) kvs)).
        b < length h \<and> (\<forall>c\<in>insert a m. rk b < rk c)"
      by (simp add: obj_refs_def)
    from "6.IH"(2)[OF _ _ PDict "6.prems"(1) this] nm a(1)
    obtain ms where "dumps_items h (insert a m) kvs = Inr ms" by auto
    with nm a(1) PDict show ?thesis by simp
  qed
next
  case (8 h m v vs)
  from "8.prems"(2) have
    p: "\<forall>b\<in>set (val_refs v). b < length h \<and> (\<forall>c\<in>m. rk b < rk c)"
       "\<forall>b\<in>set (concat (map val_refs vs)). b < length h \<and> (\<forall>c\<in>m. rk b < rk c)"
    by auto
  from "8.IH"(1)[OF "8.prems"(1) p(1)] obtain j where j: "dumps_val h m v = Inr j" by blast
  from "8.IH"(2)[OF j "8.prems"(1) p(2)] obtain js where "dumps_list h m vs = Inr js" by blast
  with j show ?case by simp
next
  case (10 h m k v kvs)
  from "10.prems"(2) have
    p: "\<forall>b\<in>set (val_refs v). b < length h \<and> (\<forall>c\<in>m. rk b < rk c)"
       "\<forall>b\<in>set (concat (map (\<lambda>kv. val_refs (snd kv)) kvs)). b < length h \<and> (\<forall>c\<in>m. rk b < rk c)"
    by auto
  from "10.IH"(1)[OF "10.prems"(1) p(1)] obtain j where j: "dumps_val h m v = Inr j" by blast
  from "10.IH"(2)[OF j "10.prems"(1) p(2)] obtain ms where "dumps_items h m kvs = Inr ms" by blast
  with j show ?case by simp
qed simp_all

lemma dumps_items_keys: "dumps_items h m kvs = Inr ms \<Longrightarrow> map fst ms = map fst kvs"
  by (induction kvs arbitrary: ms) (auto split: sum.splits)

lemma dumps_nodup:
  "wf_heap h \<Longrightarrow> dumps_val h m v = Inr j \<Longrightarrow> nodup j"
  "wf_heap h \<Longrightarrow> dumps_list h m vs = Inr js \<Longrightarrow> nodup_list js"
  "wf_heap h \<Longrightarrow> dumps_items h m kvs = Inr ms \<Longrightarrow> nodup_members ms"
proof (induction h m v and h m vs and h m kvs arbitrary: j and js and ms
    rule: dumps_val_dumps_list_dumps_items.induct)
  case (6 h m a)
  from "6.prems"(2) have a: "a \<notin> m" "a < length h"
    by (auto split: if_splits)
  show ?case
  proof (cases "h ! a")
    case (PList vs)
    with "6.prems"(2) a obtain js where
      js: "dumps_list h (insert a m) vs = Inr js" "j = JArr js"
      by (auto split: sum.splits)
    from "6.IH"(1)[OF _ _ PList "6.prems"(1) js(1)] a js(2) show ?thesis by simp
  next
    case (PDict kvs)
    with "6.prems"(2) a obtain ms where
      ms: "dumps_items h (insert a m) kvs = Inr ms" "j = JObj ms"
      by (auto split: sum.splits)
    from "6.prems"(1) a(2) PDict have "distinct (map fst kvs)"
      by (auto simp: wf_heap_def list_all_length)
    with dumps_items_keys[OF ms(1)] have "distinct (map fst ms)" by simp
    with "6.IH"(2)[OF _ _ PDict "6.prems"(1) ms(1)] a ms(2) show ?thesis by simp
  qed
next
  case (8 h m v vs)
  from "8.prems"(2) obtain j1 js1 where
    s: "dumps_val h m v = Inr j1" "dumps_list h m vs = Inr js1" "js = j1 # js1"
    by (auto split: sum.splits)
  from "8.IH"(1)[OF "8.prems"(1) s(1)] "8.IH"(2)[OF s(1) "8.prems"(1) s(2)] s(3)
  show ?case by simp
next
  case (10 h m k v kvs)
  from "10.prems"(2) obtain j1 ms1 where
    s: "dumps_val h m v = Inr j1" "dumps_items h m kvs = Inr ms1" "ms = (k, j1) # ms1"
    by (auto split: sum.splits)
  from "10.IH"(1)[OF "10.prems"(1) s(1)] "10.IH"(2)[OF s(1) "10.prems"(1) s(2)] s(3)
  show ?case by simp
qed auto

lemma update_fresh_key: "k \<notin> set (map fst al) \<Longrightarrow> AList.update k v al = al @ [(k, v)]"
  by (induction al) auto

lemma dict_of_distinct_append:
  "distinct (map fst (d @ kvs)) \<Longrightarrow> dict_of d kvs = d @ kvs"
proof (induction d kvs rule: dict_of.induct)
  case (1 d)
  then show ?case by simp
next
  case (2 d k v kvs)
  from "2.prems" have k: "k \<notin> set (map fst d)" by auto
  then have u: "AList.update k v d = d @ [(k, v)]" by (rule update_fresh_key)
  from "2.prems" have "distinct (map fst ((d @ [(k, v)]) @ kvs))" by simp
  with "2.IH" u show ?case by simp
qed

lemma loads_dumps:
  "json_loads j h = (v, h') \<Longrightarrow> nodup j \<Longrightarrow> m \<inter> {length h..<length h'} = {} \<Longrightarrow>
     dumps_val h' m v = Inr j"
  "json_loads_list js h = (vs, h') \<Longrightarrow> nodup_list js \<Longrightarrow> m \<inter> {length h..<length h'} = {} \<Longrightarrow>
     dumps_list h' m vs = Inr js"
  "json_loads_members ms h = (kvs, h') \<Longrightarrow> nodup_members ms \<Longrightarrow>
     m \<inter> {length h..<length h'} = {} \<Longrightarrow> dumps_items h' m kvs = Inr ms"
proof (induction j h and js h and ms h arbitrary: v h' m and vs h' m and kvs h' m
    rule: json_loads_json_loads_list_json_loads_members.induct)
  case (6 js h)
  from "6.prems"(1) obtain vs h1 where
    s: "json_loads_list js h = (vs, h1)" "v = PRef (length h1)" "h' = h1 @ [PList vs]"
    by (auto simp: new_obj_def split: prod.splits)
  from json_loads_extends(2)[OF s(1)] have le: "length h \<le> length h1" by auto
  let ?m0 = "insert (length h1) m \<inter> {..<length h1}"
  have "?m0 \<inter> {length h..<length h1} = {}"
    using "6.prems"(3) s(3) by auto
  with "6.IH"[OF s(1)] "6.prems"(2) have "dumps_list h1 ?m0 vs = Inr js" by simp
  then have "dumps_list (h1 @ [PList vs]) (insert (length h1) m) vs = Inr js"
    by (rule dumps_extend(2)) simp
  moreover have "length h1 \<notin> m"
    using "6.prems"(3) s(3) le by auto
  ultimately show ?case using s(2,3) by simp
next
  case (7 ms h)
  from "7.prems"(1) obtain kvs h1 where
    s: "json_loads_members ms h = (kvs, h1)" "v = PRef (length h1)"
       "h' = h1 @ [PDict (dict_of [] kvs)]"
    by (auto simp: new_obj_def split: prod.splits)
  from json_loads_extends(3)[OF s(1)] have le: "length h \<le> length h1" by auto
  from "7.prems"(2) json_loads_members_keys[OF s(1)] have "distinct (map fst ([] @ kvs))"
    by simp
  then have d: "dict_of [] kvs = kvs" using dict_of_distinct_append[of "[]" kvs] by simp
  let ?m0 = "insert (length h1) m \<inter> {..<length h1}"
  have "?m0 \<inter> {length h..<length h1} = {}"
    using "7.prems"(3) s(3) by auto
  with "7.IH"[OF s(1)] "7.prems"(2) have "dumps_items h1 ?m0 kvs = Inr ms" by simp
  then have "dumps_items (h1 @ [PDict kvs]) (insert (length h1) m) kvs = Inr ms"
    by (rule dumps_extend(3)) simp
  moreover have "length h1 \<notin> m"
    using "7.prems"(3) s(3) le by auto
  ultimately show ?case using s(2,3) d by simp
next
  case (9 j js h)
  from "9.prems"(1) obtain v1 h1 vs1 where
    s: "json_loads j h = (v1, h1)" "json_loads_list js h1 = (vs1, h')" "vs = v1 # vs1"
    by (auto split: prod.splits)
  from json_loads_extends(1)[OF s(1)] have le1: "length h \<le> length h1" by auto
  from json_loads_extends(2)[OF s(2)] obtain e where e: "h' = h1 @ e" by blast
  let ?m0 = "m \<inter> {..<length h1}"
  have "?m0 \<inter> {length h..<length h1} = {}"
    using "9.prems"(3) e by auto
  with "9.IH"(1)[OF s(1)] "9.prems"(2) have "dumps_val h1 ?m0 v1 = Inr j" by simp
  then have "dumps_val (h1 @ e) m v1 = Inr j"
    by (rule dumps_extend(1)) simp
  moreover have "m \<inter> {length h1..<length h'} = {}"
    using "9.prems"(3) le1 by auto
  with "9.IH"(2)[OF s(1)[symmetric] s(2)] "9.prems"(2)
  have "dumps_list h' m vs1 = Inr js" by simp
  ultimately show ?case using s(3) e by simp
next
  case (11 k j ms h)
  from "11.prems"(1) obtain v1 h1 kvs1 where
    s: "json_loads j h = (v1, h1)" "json_loads_members ms h1 = (kvs1, h')" "kvs = (k, v1) # kvs1"
    by (auto split: prod.splits)
  from json_loads_extends(1)[OF s(1)] have le1: "length h \<le> length h1" by auto
  from json_loads_extends(3)[OF s(2)] obtain e where e: "h' = h1 @ e" by blast
  let ?m0 = "m \<inter> {..<length h1}"
  have "?m0 \<inter> {length h..<length h1} = {}"
    using "11.prems"(3) e by auto
  with "11.IH"(1)[OF s(1)] "11.prems"(2) have "dumps_val h1 ?m0 v1 = Inr j" by simp
  then have "dumps_val (h1 @ e) m v1 = Inr j"
    by (rule dumps_extend(1)) simp
  moreover have "m \<inter> {length h1..<length h'} = {}"
    using "11.prems"(3) le1 by auto
  with "11.IH"(2)[OF s(1)[symmetric] s(2)] "11.prems"(2)
  have "dumps_items h' m kvs1 = Inr ms" by simp
  ultimately show ?case using s(3) e by simp
qed auto

lemma loaded_dumps:
  assumes "loaded h j v" "nodup j"
  shows "dumps_val h {} v = Inr j"
proof -
  from assms(1) obtain hx hy e where l: "json_loads j hx = (v, hy)" "h = hy @ e"
    unfolding loaded_def by blast
  from loads_dumps(1)[OF l(1) assms(2), of "{}"] have "dumps_val hy {} v = Inr j" by simp
  then have "dumps_val (hy @ e) {} v = Inr j" by (rule dumps_extend(1)) simp
  with l(2) show ?thesis by simp
qed

lemma dumps_items_values:
  "dumps_items h m kvs = Inr ms \<Longrightarrow> distinct (map fst kvs) \<Longrightarrow> (k, v) \<in> set kvs \<Longrightarrow>
   \<exists>j. lookup_last k ms = Some j \<and> dumps_val h m v = Inr j"
proof (induction kvs arbitrary: ms)
  case Nil
  then show ?case by simp
next
  case (Cons kv kvs)
  obtain k1 v1 where kv: "kv = (k1, v1)" by (cases kv)
  from Cons.prems(1) kv obtain j1 ms1 where
    s: "dumps_val h m v1 = Inr j1" "dumps_items h m kvs = Inr ms1" "ms = (k1, j1) # ms1"
    by (auto split: sum.splits)
  from dumps_items_keys[OF s(2)] have keys: "map fst ms1 = map fst kvs" .
  show ?case
  proof (cases "(k, v) \<in> set kvs")
    case True
    from Cons.prems(2) have "distinct (map fst kvs)" by simp
    from Cons.IH[OF s(2) this True] obtain j where
      "lookup_last k ms1 = Some j" "dumps_val h m v = Inr j" by blast
    with s(3) show ?thesis by simp
  next
    case False
    with Cons.prems(3) kv have eq: "k = k1" "v = v1" by auto
    with Cons.prems(2) kv keys have "k \<notin> set (map fst ms1)" by simp
    then have "lookup_last k ms1 = None" by (simp add: lookup_last_None)
    with s eq show ?thesis by simp
  qed
qed

lemma init_fields_keys: "map fst (init_fields a l) = target_fields"
  by (simp add: init_fields_def target_fields_def)

lemma mandatory_are_fields: "set mandatory_fields \<subseteq> set target_fields"
  by (simp add: mandatory_fields_def target_fields_def)

lemma to_json_ok:
  assumes "target_ok h rk t"
  shows "\<exists>ms. to_json h t = Inr (JObj ms) \<and> map fst ms = map fst t \<and> nodup (JObj ms)
      \<and> (\<forall>k v. map_of t k = Some v \<longrightarrow>
            (\<exists>j. lookup_last k ms = Some j \<and> dumps_val h {} v = Inr j \<and> nodup j))"
proof -
  from assms have d: "distinct (map fst t)"
    and refs: "\<forall>b\<in>set (concat (map (\<lambda>kv. val_refs (snd kv)) t)). b < length h"
    and wf: "wf_heap h" and rk: "ranked h rk"
    by (simp_all add: target_ok_def)
  from refs have "\<forall>b\<in>set (concat (map (\<lambda>kv. val_refs (snd kv)) t)).
      b < length h \<and> (\<forall>c\<in>{}. rk b < rk c)" by simp
  from dumps_succeeds(3)[OF rk this] obtain ms where ms: "dumps_items h {} t = Inr ms"
    by blast
  have keys: "map fst ms = map fst t" by (rule dumps_items_keys[OF ms])
  have nd: "nodup (JObj ms)"
    using dumps_nodup(3)[OF wf ms] d keys by simp
  have vals: "\<exists>j. lookup_last k ms = Some j \<and> dumps_val h {} v = Inr j \<and> nodup j"
    if "map_of t k = Some v" for k v
  proof -
    from that have "(k, v) \<in> set t" by (rule map_of_SomeD)
    from dumps_items_values[OF ms d this] obtain j where
      j: "lookup_last k ms = Some j" "dumps_val h {} v = Inr j" by blast
    from dumps_nodup(1)[OF wf j(2)] j show ?thesis by blast
  qed
  from ms keys nd vals show ?thesis by (simp add: to_json_def)
qed

lemma val_refs_simps:
  "val_refs PNone = []" "val_refs (PBool b) = []" "val_refs (PInt i) = []"
  "val_refs (PFloat x) = []" "val_refs (PStr s) = []" "val_refs (PRef a) = [a]"
  by (simp_all add: val_refs_def)

text \<open>
  The instances that the constructor makes from arguments of the documented types
  (numbers and strings, and a list of numbers for \<^verbatim>\<open>exp_times\<close>) are instances in the
  sense of \<open>target_ok\<close>, in every store of Python data.
\<close>

lemma Target_init_ok:
  assumes heap: "wf_heap h" "ranked h rk"
    and scalars: "val_refs (arg_or PNone (arg_targetid a)) = []"
      "val_refs (arg_or PNone (arg_fieldid a)) = []"
      "val_refs (arg_or PNone (arg_band_filter a)) = []"
      "val_refs (arg_or PNone (arg_ra_rad a)) = []"
      "val_refs (arg_or PNone (arg_dec_rad a)) = []"
      "val_refs (arg_or PNone (arg_ang_rad a)) = []"
      "val_refs (arg_or PNone (arg_num_exp a)) = []"
    and items: "(case arg_exp_times a of None \<Rightarrow> Inr [] | Some v \<Rightarrow> py_iter h v) = Inr xs"
      "concat (map val_refs xs) = []"
  shows "\<exists>t. Target_init a h = Inr (t, h @ [PList xs]) \<and> target_ok (h @ [PList xs]) rk t"
proof -
  let ?t = "init_fields a (PRef (length h))"
  let ?h' = "h @ [PList xs]"
  have r: "Target_init a h = Inr (?t, ?h')"
    using items(1) by (simp add: Target_init_def new_obj_def)
  have keys: "map fst ?t = target_fields" by (rule init_fields_keys)
  have d: "distinct (map fst ?t)"
    unfolding keys by (simp add: target_fields_def)
  have nd: "set (map fst ?t) \<inter> set descriptor_names = {}"
    unfolding keys by (simp add: target_fields_def descriptor_names_def degree_names_def)
  have sc: "val_refs (arg_or d0 x) = []" if "val_refs (arg_or PNone x) = []" "val_refs d0 = []"
    for d0 :: "'a pyval" and x
    using that by (cases x) (simp_all add: arg_or_def)
  have refs: "concat (map (\<lambda>kv. val_refs (snd kv)) ?t) = [length h]"
    using scalars
    by (simp add: init_fields_def sc val_refs_simps)
  have wf: "wf_heap ?h'"
    using heap(1) by (simp add: wf_heap_def)
  have rk: "ranked ?h' rk"
    unfolding ranked_def
  proof (intro allI impI ballI)
    fix b c
    assume b: "b < length ?h'" and c: "c \<in> set (obj_refs (?h' ! b))"
    show "c < length ?h' \<and> rk c < rk b"
    proof (cases "b < length h")
      case True
      with c have "c \<in> set (obj_refs (h ! b))" by (simp add: nth_append)
      with heap(2) True have "c < length h \<and> rk c < rk b" by (simp add: ranked_def)
      then show ?thesis by simp
    next
      case False
      with b have "b = length h" by simp
      with c items(2) show ?thesis by (simp add: obj_refs_def)
    qed
  qed
  have "target_ok ?h' rk ?t"
    unfolding target_ok_def using d nd wf rk by (simp add: refs keys)
  with r show ?thesis by blast
qed

lemma dumps_scalar_inj:
  assumes "val_refs v = []" "dumps_val h m v = Inr j" "dumps_val h' m' v' = Inr j"
  shows "v' = v"
proof (cases v)
  case (PRef a)
  with assms(1) show ?thesis by (simp add: val_refs_def)
qed (use assms(2,3) in \<open>cases v'; auto split: if_splits pyobj.splits sum.splits\<close>)+

text \<open>
  Claim C4. For every instance \<open>t\<close> of the class in a store of Python data
  (\<open>target_ok\<close>), \<^verbatim>\<open>to_json\<close> returns normally; the keys of the object it writes are
  the names of the attributes of \<open>t\<close>, in their order. \<^verbatim>\<open>from_json\<close> of that document
  on an instance that \<^verbatim>\<open>Target()\<close> has just made returns normally and yields an
  instance with the same attribute names, in which every attribute, the override
  \<^verbatim>\<open>_exp_time\<close> included, has the value it has in \<open>t\<close>: the two values are written
  by \<^verbatim>\<open>json.dumps\<close> as the same document, and a value that is no list or dict is the
  same value.
\<close>

theorem json_round_trip:
  assumes ok: "target_ok h rk t"
  shows "\<exists>ms fresh h1 t' h2.
      to_json h t = Inr (JObj ms) \<and> map fst ms = map fst t
      \<and> Target_init no_args (h @ e) = Inr (fresh, h1)
      \<and> from_json M (JObj ms) fresh h1 = (None, t', h2)
      \<and> set (map fst t') = set (map fst t)
      \<and> (\<forall>k v. map_of t k = Some v \<longrightarrow>
            (\<exists>v' j. map_of t' k = Some v' \<and> dumps_val h {} v = Inr j
               \<and> dumps_val h2 {} v' = Inr j \<and> dumps_val h2 {} v = Inr j))
      \<and> (\<forall>k v. map_of t k = Some v \<longrightarrow> val_refs v = [] \<longrightarrow> map_of t' k = Some v)"
proof -
  from to_json_ok[OF ok] obtain ms where
    ms: "to_json h t = Inr (JObj ms)" "map fst ms = map fst t"
        "\<forall>k v. map_of t k = Some v \<longrightarrow>
            (\<exists>j. lookup_last k ms = Some j \<and> dumps_val h {} v = Inr j \<and> nodup j)"
    by blast
  let ?fresh = "init_fields no_args (PRef (length (h @ e))) :: 'a target"
  let ?h1 = "(h @ e) @ [PList []]"
  have init: "Target_init no_args (h @ e) = Inr (?fresh, ?h1)"
    by (simp add: Target_init_omitted no_args_def)
  from ok have fields: "set target_fields \<subseteq> set (map fst t)"
    and plain: "set (map fst t) \<inter> set descriptor_names = {}"
    by (simp_all add: target_ok_def)
  from fields mandatory_are_fields ms(2) have mand: "set mandatory_fields \<subseteq> set (map fst ms)"
    by auto
  from plain ms(2) have pl: "set (map fst ms) \<inter> set descriptor_names = {}" by simp
  from from_json_plain[OF mand pl, of M ?fresh ?h1] obtain t' h2 e2 where
    r: "from_json M (JObj ms) ?fresh ?h1 = (None, t', h2)"
       "\<forall>k j. lookup_last k ms = Some j \<longrightarrow> (\<exists>v. map_of t' k = Some v \<and> loaded h2 j v)"
       "set (map fst t') = set (map fst ?fresh) \<union> set (map fst ms)"
       "h2 = ?h1 @ e2"
    by blast
  have keys: "set (map fst t') = set (map fst t)"
    using r(3) fields ms(2) by (auto simp: init_fields_keys)
  have vals: "\<exists>v' j. map_of t' k = Some v' \<and> dumps_val h {} v = Inr j
               \<and> dumps_val h2 {} v' = Inr j \<and> dumps_val h2 {} v = Inr j"
    if "map_of t k = Some v" for k v
  proof -
    from ms(3) that obtain j where
      j: "lookup_last k ms = Some j" "dumps_val h {} v = Inr j" "nodup j" by blast
    from r(2) j(1) obtain v' where v': "map_of t' k = Some v'" "loaded h2 j v'" by blast
    from loaded_dumps[OF v'(2) j(3)] have new: "dumps_val h2 {} v' = Inr j" .
    from j(2) have "dumps_val (h @ (e @ [PList []] @ e2)) {} v = Inr j"
      by (rule dumps_extend(1)) simp
    with r(4) have "dumps_val h2 {} v = Inr j" by simp
    with v'(1) j(2) new show ?thesis by blast
  qed
  have scalars: "map_of t' k = Some v" if "map_of t k = Some v" "val_refs v = []" for k v
  proof -
    from vals[OF that(1)] obtain v' j where
      "map_of t' k = Some v'" "dumps_val h {} v = Inr j" "dumps_val h2 {} v' = Inr j"
      by blast
    with dumps_scalar_inj[OF that(2), of h "{}" j h2 "{}" v'] show ?thesis by simp
  qed
  from ms(1,2) init r(1) keys vals scalars show ?thesis by blast
qed

text \<open>
  For instance, the instance with \<^verbatim>\<open>targetid = 7\<close>, the exposure times
  \<^verbatim>\<open>[15.0, 15.0]\<close> and the override \<^verbatim>\<open>5.0\<close>.
\<close>

theorem json_round_trip_witness:
  "\<exists>ms fresh h1 t' h2.
      to_json example_heap example_stored = Inr (JObj ms)
      \<and> map fst ms = target_fields
      \<and> Target_init no_args example_heap = Inr (fresh, h1)
      \<and> from_json example_math (JObj ms) fresh h1 = (None, t', h2)
      \<and> map_of t' ''_exp_time'' = Some (PFloat 5)
      \<and> map_of t' ''targetid'' = Some (PInt 7)
      \<and> (\<exists>l. map_of t' ''exp_times'' = Some l
            \<and> dumps_val h2 {} l = Inr (JArr [JFloat 15, JFloat 15]))"
proof -
  have keys: "map fst example_stored = target_fields"
    by (simp add: example_stored_def exp_time_setter_def update_keys init_fields_keys
        target_fields_def)
  have vals: "map_of example_stored ''_exp_time'' = Some (PFloat 5)"
    "map_of example_stored ''targetid'' = Some (PInt 7)"
    "map_of example_stored ''exp_times'' = Some (PRef 0)"
    by (simp_all add: example_stored_def exp_time_setter_def update_conv' init_fields_def
        example_args_def no_args_def arg_or_def)
  have refs: "concat (map (\<lambda>kv. val_refs (snd kv)) example_stored) = [0]"
    by (simp add: example_stored_def exp_time_setter_def init_fields_def
        example_args_def no_args_def arg_or_def val_refs_def)
  have ok: "target_ok example_heap (\<lambda>a. a) example_stored"
    unfolding target_ok_def keys refs
    by (simp add: target_fields_def descriptor_names_def degree_names_def example_heap_def
        wf_heap_def ranked_def obj_refs_def val_refs_def)
  from json_round_trip[OF ok, of "[]" example_math] obtain ms fresh h1 t' h2 where
    r: "to_json example_heap example_stored = Inr (JObj ms)" "map fst ms = map fst example_stored"
       "Target_init no_args example_heap = Inr (fresh, h1)"
       "from_json example_math (JObj ms) fresh h1 = (None, t', h2)"
       "\<forall>k v. map_of example_stored k = Some v \<longrightarrow>
            (\<exists>v' j. map_of t' k = Some v' \<and> dumps_val example_heap {} v = Inr j
               \<and> dumps_val h2 {} v' = Inr j \<and> dumps_val h2 {} v = Inr j)"
    by auto
  from r(5) vals(1) obtain v1 where
    v1: "map_of t' ''_exp_time'' = Some v1" "dumps_val h2 {} v1 = Inr (JFloat 5)"
    by fastforce
  from v1(2) have "v1 = PFloat 5"
    by (cases v1) (auto split: if_splits pyobj.splits sum.splits)
  from r(5) vals(2) obtain v2 where
    v2: "map_of t' ''targetid'' = Some v2" "dumps_val h2 {} v2 = Inr (JInt 7)"
    by fastforce
  from v2(2) have "v2 = PInt 7"
    by (cases v2) (auto split: if_splits pyobj.splits sum.splits)
  have "dumps_val example_heap {} (PRef 0) = Inr (JArr [JFloat 15, JFloat (15::rat)])"
    by (simp add: example_heap_def)
  with r(5) vals(3) obtain l where
    l: "map_of t' ''exp_times'' = Some l" "dumps_val h2 {} l = Inr (JArr [JFloat 15, JFloat 15])"
    by fastforce
  from r(1,2,3,4) keys v1(1) \<open>v1 = PFloat 5\<close> v2(1) \<open>v2 = PInt 7\<close> l show ?thesis
    by auto
qed

end
